theory Spec2Isabelle
  imports Complex_Main "HOL-Library.AList"
begin

section \<open>Values\<close>

text \<open>
  Payloads are what \<^verbatim>\<open>json.load\<close> produces: \<^verbatim>\<open>None\<close>, booleans, integers, floats,
  strings, lists and dictionaries with string keys. A dictionary is an association list
  in insertion order (Python dictionaries keep it). Floats are carried as real numbers;
  no function below computes with them. Strings are byte lists.
\<close>

datatype json =
    JNull
  | JBool bool
  | JInt int
  | JFloat real
  | JStr string
  | JList "json list"
  | JDict "(string \<times> json) list"

text \<open>Python truthiness, as used by \<^verbatim>\<open>if x:\<close> and \<^verbatim>\<open>not x\<close>.\<close>

fun truthy :: "json \<Rightarrow> bool" where
  "truthy JNull = False"
| "truthy (JBool b) = b"
| "truthy (JInt i) = (i \<noteq> 0)"
| "truthy (JFloat f) = (f \<noteq> 0)"
| "truthy (JStr s) = (s \<noteq> [])"
| "truthy (JList xs) = (xs \<noteq> [])"
| "truthy (JDict kvs) = (kvs \<noteq> [])"

datatype error = TypeError | ValueError | AttributeError | KeyError | IndexError | RecursionError | OtherError

section \<open>poller.py\<close>

subsection \<open>Data\<close>

text \<open>\<^verbatim>\<open>PollResult\<close>; \<^verbatim>\<open>data\<close> is \<^verbatim>\<open>Optional[Dict]\<close>, with \<^const>\<open>JNull\<close> for \<^verbatim>\<open>None\<close>.\<close>

record poll_result =
  success :: bool
  data :: json
  pr_source_name :: string
  endpoint_url :: string
  http_status :: int
  cached :: bool
  error_message :: string
  poll_duration_ms :: int
  next_poll_interval :: int
  pr_etag :: "string option"
  pr_last_modified :: "string option"

definition PollResult :: "bool \<Rightarrow> poll_result" where
  "PollResult s = \<lparr> success = s, data = JNull, pr_source_name = [], endpoint_url = [],
     http_status = 0, cached = False, error_message = [], poll_duration_ms = 0,
     next_poll_interval = 60, pr_etag = None, pr_last_modified = None \<rparr>"

text \<open>\<^verbatim>\<open>DomainState\<close>. Times are \<^verbatim>\<open>time.time()\<close> values.\<close>

record domain_state =
  domain :: string
  last_poll_time :: real
  last_successful_poll :: real
  current_interval :: int
  consecutive_failures :: int
  active_source_index :: int
  cached_data :: json
  game_state :: string
  is_live_game :: bool
  intermission :: json

definition DomainState :: "string \<Rightarrow> domain_state" where
  "DomainState d = \<lparr> domain = d, last_poll_time = 0, last_successful_poll = 0,
     current_interval = 60, consecutive_failures = 0, active_source_index = 0,
     cached_data = JNull, game_state = ''UNKNOWN'', is_live_game = False,
     intermission = JBool False \<rparr>"

text \<open>
  Of \<^verbatim>\<open>DiscoveredEndpoint\<close> and \<^verbatim>\<open>DataSourceConfig\<close> the poll cycle reads the URL, the
  source name and the per-minute limit.
\<close>

record discovered_endpoint =
  url :: string
  ep_domain :: string
  ep_source_name :: string

record data_source_config =
  name :: string
  rate_limit_per_minute :: int

text \<open>\<^verbatim>\<open>config.data_sources\<close>: domain \<open>\<rightarrow>\<close> source key \<open>\<rightarrow>\<close> source configuration.\<close>

type_synonym data_sources = "(string \<times> (string \<times> data_source_config) list) list"

text \<open>\<^verbatim>\<open>self.rate_limits\<close>: source name \<open>\<rightarrow>\<close> request times of the last minute.\<close>

type_synonym rate_limits = "string \<rightharpoonup> real list"

subsection \<open>Rate limiting\<close>

text \<open>
  The lookup loop of \<^verbatim>\<open>_check_rate_limit\<close>: the \<^verbatim>\<open>break\<close> leaves the inner loop only,
  so the last domain that has a source of that name decides.
\<close>

fun find_source_config :: "data_sources \<Rightarrow> string \<Rightarrow> data_source_config option \<Rightarrow> data_source_config option" where
  "find_source_config [] n acc = acc"
| "find_source_config ((d, srcs) # rest) n acc =
     (case find (\<lambda>s. name s = n) (map snd srcs) of
        Some s \<Rightarrow> find_source_config rest n (Some s)
      | None \<Rightarrow> find_source_config rest n acc)"

definition check_rate_limit :: "data_sources \<Rightarrow> rate_limits \<Rightarrow> string \<Rightarrow> real \<Rightarrow> bool \<times> rate_limits" where
  "check_rate_limit ds rl source_name current_time =
     (let old = (case rl source_name of None \<Rightarrow> [] | Some ts \<Rightarrow> ts);
          recent = filter (\<lambda>t. current_time - t < 60) old;
          rl1 = rl(source_name \<mapsto> recent);
          over = (case find_source_config ds source_name None of
                    Some sc \<Rightarrow> int (length recent) \<ge> rate_limit_per_minute sc
                  | None \<Rightarrow> False)
      in if over then (False, rl1)
         else (True, rl1(source_name \<mapsto> recent @ [current_time])))"

subsection \<open>One endpoint\<close>

text \<open>
  What follows the rate check in \<^verbatim>\<open>_poll_endpoint\<close> (file read or HTTP exchange, cache
  lookup, normalisation) is the environment's answer: the \<^verbatim>\<open>PollResult\<close> the method
  returns, or an exception that leaves it. With it comes the clock value read by the
  rate check. While the method waits for the upstream, the loops of the other domains
  run and may record requests of their own in the shared request times; a rate-limited
  endpoint returns without waiting. The environment is indexed by the endpoint's
  position in the list.
\<close>

datatype attempt = Returns poll_result | Raises

record answer =
  at_time :: real
  outcome :: attempt
  meanwhile :: "rate_limits \<Rightarrow> rate_limits"

type_synonym env = "nat \<Rightarrow> answer"

definition poll_endpoint ::
  "data_sources \<Rightarrow> rate_limits \<Rightarrow> discovered_endpoint \<Rightarrow> answer \<Rightarrow> (error + poll_result) \<times> rate_limits" where
  "poll_endpoint ds rl endpoint ea =
     (case check_rate_limit ds rl (ep_source_name endpoint) (at_time ea) of
        (False, rl') \<Rightarrow>
          (Inr ((PollResult False)\<lparr> error_message := ''Rate limit exceeded'',
                                     pr_source_name := ep_source_name endpoint \<rparr>), rl')
      | (True, rl') \<Rightarrow>
          (case outcome ea of
             Returns r \<Rightarrow> (Inr r, meanwhile ea rl')
           | Raises \<Rightarrow> (Inl OtherError, meanwhile ea rl')))"

subsection \<open>One cycle of a domain\<close>

text \<open>
  The \<^verbatim>\<open>for attempt, endpoint in enumerate(available_endpoints)\<close> loop of
  \<^verbatim>\<open>_poll_domain\<close>. \<^const>\<open>None\<close> means the loop ran to its end.
\<close>

fun poll_loop ::
  "data_sources \<Rightarrow> env \<Rightarrow> (nat \<times> discovered_endpoint) list \<Rightarrow> domain_state \<Rightarrow> rate_limits
     \<Rightarrow> poll_result option \<times> domain_state \<times> rate_limits" where
  "poll_loop ds ev [] st rl = (None, st, rl)"
| "poll_loop ds ev ((attempt, endpoint) # rest) st rl =
     (if int attempt < active_source_index st then poll_loop ds ev rest st rl
      else (case poll_endpoint ds rl endpoint (ev attempt) of
              (Inr result, rl') \<Rightarrow>
                (if success result
                 then (Some result,
                       (if active_source_index st \<noteq> 0 then st\<lparr>active_source_index := 0\<rparr> else st)
                         \<lparr>consecutive_failures := 0\<rparr>,
                       rl')
                 else poll_loop ds ev rest st rl')
            | (Inl e, rl') \<Rightarrow> poll_loop ds ev rest st rl'))"

definition poll_domain ::
  "data_sources \<Rightarrow> env \<Rightarrow> discovered_endpoint list \<Rightarrow> domain_state \<times> rate_limits
     \<Rightarrow> poll_result \<times> domain_state \<times> rate_limits" where
  "poll_domain ds ev available_endpoints s =
     (case s of (st, rl) \<Rightarrow>
      if available_endpoints = []
      then ((PollResult False)\<lparr>error_message := ''No endpoints available for domain: '' @ domain st\<rparr>, st, rl)
      else (case poll_loop ds ev (enumerate 0 available_endpoints) st rl of
              (Some result, st', rl') \<Rightarrow> (result, st', rl')
            | (None, st1, rl') \<Rightarrow>
                (let st2 = st1\<lparr>consecutive_failures := consecutive_failures st1 + 1\<rparr>;
                     st3 = (if consecutive_failures st2 \<ge> 3
                               \<and> active_source_index st2 < int (length available_endpoints) - 1
                            then st2\<lparr>active_source_index := active_source_index st2 + 1\<rparr>
                            else st2)
                 in if truthy (cached_data st3)
                    then ((PollResult True)\<lparr>data := cached_data st3, cached := True,
                                             pr_source_name := ''cache''\<rparr>, st3, rl')
                    else ((PollResult False)\<lparr>error_message := ''All sources failed for domain: '' @ domain st3\<rparr>,
                          st3, rl'))))"

subsection \<open>State update after a cycle\<close>

record polling_config =
  live_game_fast :: int
  live_game_slow :: int
  pregame :: int
  postgame :: int
  player_stats :: int
  standings :: int
  schedule :: int
  offline :: int

text \<open>
  \<^verbatim>\<open>[g for g in games if g.get('gameState') in states]\<close>: an element that is not a
  dictionary has no \<^verbatim>\<open>get\<close>.
\<close>

fun games_in_state :: "json list \<Rightarrow> string list \<Rightarrow> error + json list" where
  "games_in_state [] states = Inr []"
| "games_in_state (g # gs) states =
     (case g of
        JDict kvs \<Rightarrow>
          (case games_in_state gs states of
             Inl e \<Rightarrow> Inl e
           | Inr rest \<Rightarrow>
               (case map_of kvs ''gameState'' of
                  Some (JStr s) \<Rightarrow> if s \<in> set states then Inr (g # rest) else Inr rest
                | _ \<Rightarrow> Inr rest))
      | _ \<Rightarrow> Inl AttributeError)"

text \<open>
  \<^verbatim>\<open>_update_game_state\<close> mutates the state field by field; when an exception leaves it,
  the fields written so far stay written. The result is the exception, if any, and the
  state at that moment.
\<close>

definition update_game_state :: "domain_state \<Rightarrow> json \<Rightarrow> error option \<times> domain_state" where
  "update_game_state st d =
     (case d of
        JDict kvs \<Rightarrow>
          (let games = (case map_of kvs ''games'' of None \<Rightarrow> JList [] | Some g \<Rightarrow> g) in
           if \<not> truthy games
           then (None, st\<lparr>is_live_game := False, game_state := ''NO_GAMES''\<rparr>)
           else (case games of
                   JList gs \<Rightarrow>
                     (case games_in_state gs [''LIVE'', ''CRIT''] of
                        Inl e \<Rightarrow> (Some e, st)
                      | Inr [] \<Rightarrow>
                          (let st1 = st\<lparr>is_live_game := False\<rparr> in
                           case games_in_state gs [''FUT'', ''PRE''] of
                             Inl e \<Rightarrow> (Some e, st1)
                           | Inr (u # us) \<Rightarrow> (None, st1\<lparr>game_state := ''SCHEDULED''\<rparr>)
                           | Inr [] \<Rightarrow>
                               (case games_in_state gs [''FINAL'', ''OFF''] of
                                  Inl e \<Rightarrow> (Some e, st1)
                                | Inr (f # fs) \<Rightarrow> (None, st1\<lparr>game_state := ''FINAL''\<rparr>)
                                | Inr [] \<Rightarrow> (None, st1\<lparr>game_state := ''OFF_DAY''\<rparr>)))
                      | Inr (game # others) \<Rightarrow>
                          (let st1 = st\<lparr>is_live_game := True, game_state := ''LIVE''\<rparr> in
                           case game of
                             JDict g \<Rightarrow>
                               (case (case map_of g ''clock'' of None \<Rightarrow> JDict [] | Some c \<Rightarrow> c) of
                                  JDict c \<Rightarrow>
                                    (None, st1\<lparr>intermission :=
                                       (case map_of c ''inIntermission'' of
                                          None \<Rightarrow> JBool False | Some v \<Rightarrow> v)\<rparr>)
                                | _ \<Rightarrow> (Some AttributeError, st1))
                           | _ \<Rightarrow> (Some AttributeError, st1)))
                 | JStr s \<Rightarrow> (Some AttributeError, st)
                 | JDict g \<Rightarrow> (Some AttributeError, st)
                 | _ \<Rightarrow> (Some TypeError, st)))
      | _ \<Rightarrow> (Some AttributeError, st))"

definition calculate_adaptive_interval :: "polling_config \<Rightarrow> string \<Rightarrow> domain_state \<Rightarrow> int" where
  "calculate_adaptive_interval pc d st =
     (if d = ''live_game'' then
        (if is_live_game st then
           (if truthy (intermission st) then live_game_slow pc else live_game_fast pc)
         else if game_state st = ''SCHEDULED'' then pregame pc
         else if game_state st = ''FINAL'' then postgame pc
         else offline pc)
      else if d = ''standings'' then standings pc
      else if d = ''team_info'' then max (standings pc) 3600
      else if d = ''schedule'' then schedule pc
      else if d = ''player_stats'' then player_stats pc
      else 300)"

definition update_domain_state ::
  "polling_config \<Rightarrow> domain_state \<Rightarrow> poll_result \<Rightarrow> real \<Rightarrow> error option \<times> domain_state" where
  "update_domain_state pc st poll_result current_time =
     (let st1 = st\<lparr>last_poll_time := current_time\<rparr>;
          r = (if success poll_result then
                 (let st2 = st1\<lparr>last_successful_poll := current_time\<rparr> in
                  if truthy (data poll_result) \<and> \<not> cached poll_result then
                    (let st3 = st2\<lparr>cached_data := data poll_result\<rparr> in
                     if domain st = ''live_game'' then update_game_state st3 (data poll_result)
                     else (None, st3))
                  else (None, st2))
               else (None, st1))
      in case r of
           (Some e, st') \<Rightarrow> (Some e, st')
         | (None, st') \<Rightarrow>
             (None, st'\<lparr>current_interval := calculate_adaptive_interval pc (domain st) st'\<rparr>))"

subsection \<open>The polling loop of a domain\<close>

text \<open>
  One pass of the \<^verbatim>\<open>while\<close> loop of \<^verbatim>\<open>_poll_domain_loop\<close>: poll, then update the state.
  An exception from the update is caught by the loop and the state stays as it was when
  the exception left. Subscriber callbacks do not touch the state.
\<close>

definition loop_iteration ::
  "data_sources \<Rightarrow> polling_config \<Rightarrow> discovered_endpoint list \<Rightarrow> env \<Rightarrow> real
     \<Rightarrow> domain_state \<times> rate_limits \<Rightarrow> domain_state \<times> rate_limits" where
  "loop_iteration ds pc eps ev current_time s =
     (case poll_domain ds ev eps s of
        (result, st1, rl1) \<Rightarrow> (snd (update_domain_state pc st1 result current_time), rl1))"

text \<open>
  The states a domain's loop can be in. The loop starts from the state the constructor
  builds; each pass runs against some environment; the request times are shared with the
  loops of the other domains, which may change them between two passes.
\<close>

inductive reachable ::
  "data_sources \<Rightarrow> polling_config \<Rightarrow> string \<Rightarrow> discovered_endpoint list
     \<Rightarrow> domain_state \<times> rate_limits \<Rightarrow> bool"
  for ds :: data_sources and pc :: polling_config and d :: string and eps :: "discovered_endpoint list"
where
  reachable_init: "reachable ds pc d eps (DomainState d, Map.empty)"
| reachable_pass: "reachable ds pc d eps s \<Longrightarrow> reachable ds pc d eps (loop_iteration ds pc eps ev t s)"
| reachable_others: "reachable ds pc d eps (st, rl) \<Longrightarrow> reachable ds pc d eps (st, rl')"

text \<open>
  The poll of one endpoint within a cycle, told without the loop. When the cycle comes
  to the endpoint at position \<open>k\<close>, every endpoint before it from the active index on has
  been polled and none has succeeded; the request times are what those polls, and the
  other loops meanwhile, have made of them. \<open>fetch\<close> is the result of the call of
  \<^verbatim>\<open>_poll_endpoint\<close> for the endpoint at position \<open>k\<close> (a position of the list) at that
  moment, and the fetch succeeds when the call returns a result whose \<^verbatim>\<open>success\<close> is true.
\<close>

fun rate_limits_before ::
  "data_sources \<Rightarrow> env \<Rightarrow> discovered_endpoint list \<Rightarrow> domain_state \<Rightarrow> rate_limits \<Rightarrow> nat \<Rightarrow> rate_limits" where
  "rate_limits_before ds ev eps st rl 0 = rl"
| "rate_limits_before ds ev eps st rl (Suc k) =
     (if int k < active_source_index st then rate_limits_before ds ev eps st rl k
      else snd (poll_endpoint ds (rate_limits_before ds ev eps st rl k) (eps ! k) (ev k)))"

definition fetch ::
  "data_sources \<Rightarrow> env \<Rightarrow> discovered_endpoint list \<Rightarrow> domain_state \<Rightarrow> rate_limits \<Rightarrow> nat
     \<Rightarrow> error + poll_result" where
  "fetch ds ev eps st rl k =
     fst (poll_endpoint ds (rate_limits_before ds ev eps st rl k) (eps ! k) (ev k))"

definition fetch_succeeds ::
  "data_sources \<Rightarrow> env \<Rightarrow> discovered_endpoint list \<Rightarrow> domain_state \<Rightarrow> rate_limits \<Rightarrow> nat \<Rightarrow> bool" where
  "fetch_succeeds ds ev eps st rl k =
     (case fetch ds ev eps st rl k of Inr r \<Rightarrow> success r | Inl e \<Rightarrow> False)"

text \<open>
  The index is valid for the endpoint list.
\<close>

definition valid_index :: "discovered_endpoint list \<Rightarrow> domain_state \<Rightarrow> bool" where
  "valid_index eps st =
     (if eps = [] then active_source_index st = 0
      else 0 \<le> active_source_index st \<and> active_source_index st < int (length eps))"

text \<open>
  Every endpoint the loop tries is turned away by the rate check (the check is run
  against the request times as the loop leaves them, one endpoint after the other).
\<close>

fun only_rate_limited ::
  "data_sources \<Rightarrow> env \<Rightarrow> (nat \<times> discovered_endpoint) list \<Rightarrow> domain_state \<Rightarrow> rate_limits \<Rightarrow> bool" where
  "only_rate_limited ds ev [] st rl = True"
| "only_rate_limited ds ev ((attempt, endpoint) # rest) st rl =
     (if int attempt < active_source_index st then only_rate_limited ds ev rest st rl
      else (case check_rate_limit ds rl (ep_source_name endpoint) (at_time (ev attempt)) of
              (ok, rl') \<Rightarrow> \<not> ok \<and> only_rate_limited ds ev rest st rl'))"

text \<open>The request times a source has on record.\<close>

definition recorded :: "rate_limits \<Rightarrow> string \<Rightarrow> real list" where
  "recorded rl s = (case rl s of None \<Rightarrow> [] | Some ts \<Rightarrow> ts)"

subsection \<open>Example data\<close>

definition ep_nhl :: discovered_endpoint where
  "ep_nhl = \<lparr> url = ''https://api-web.nhle.com/v1/score/now'', ep_domain = ''live_game'',
              ep_source_name = ''nhl_official'' \<rparr>"

definition ep_espn :: discovered_endpoint where
  "ep_espn = \<lparr> url = ''https://site.api.espn.com/apis/site/v2/sports/hockey/nhl/scoreboard'',
               ep_domain = ''live_game'', ep_source_name = ''espn'' \<rparr>"

definition ep_legacy :: discovered_endpoint where
  "ep_legacy = \<lparr> url = ''file:///tmp/games.json'', ep_domain = ''live_game'',
                 ep_source_name = ''nhl_legacy'' \<rparr>"

definition sources_one_per_minute :: data_sources where
  "sources_one_per_minute =
     [(''live_game'', [(''nhl_official'', \<lparr> name = ''nhl_official'', rate_limit_per_minute = 1 \<rparr>)])]"

definition fresh_result :: poll_result where
  "fresh_result = (PollResult True)\<lparr> data := JDict [(''games'', JList [])],
                                     pr_source_name := ''espn'', http_status := 200 \<rparr>"

definition env_all_raise :: env where
  "env_all_raise i = \<lparr> at_time = 1000, outcome = Raises, meanwhile = id \<rparr>"

definition env_last_ok :: env where
  "env_last_ok i = \<lparr> at_time = 1000, outcome = (if i = 2 then Returns fresh_result else Raises),
                     meanwhile = id \<rparr>"

definition env_healthy :: env where
  "env_healthy i = \<lparr> at_time = 110, outcome = Returns fresh_result, meanwhile = id \<rparr>"

definition env_down :: env where
  "env_down i = \<lparr> at_time = 110, outcome = Raises, meanwhile = id \<rparr>"

definition two_failures :: domain_state where
  "two_failures = (DomainState ''live_game'')\<lparr> consecutive_failures := 2 \<rparr>"

definition on_fallback :: domain_state where
  "on_fallback = (DomainState ''live_game'')\<lparr> consecutive_failures := 4, active_source_index := 1 \<rparr>"

definition one_request_on_record :: rate_limits where
  "one_request_on_record = [''nhl_official'' \<mapsto> [100]]"

definition default_polling :: polling_config where
  "default_polling = \<lparr> live_game_fast = 3, live_game_slow = 20, pregame = 60, postgame = 300,
     player_stats = 900, standings = 1800, schedule = 3600, offline = 14400 \<rparr>"

section \<open>Strings\<close>

text \<open>
  The string operations of Python the sources use. A string is its UTF-8 bytes: tests
  for a prefix, a suffix or a substring, splitting at an ASCII character and replacing
  give the same result on the bytes as on the code points. \<^verbatim>\<open>str.lower\<close> follows the
  Unicode tables and is a parameter of every function that calls it; on ASCII text it is
  \<open>ascii_lower\<close>, which the examples use.
\<close>

definition startswith :: "string \<Rightarrow> string \<Rightarrow> bool" where
  "startswith s p = (take (length p) s = p)"

definition endswith :: "string \<Rightarrow> string \<Rightarrow> bool" where
  "endswith s p = (length p \<le> length s \<and> drop (length s - length p) s = p)"

text \<open>\<^verbatim>\<open>sub in s\<close> on strings.\<close>

fun contains :: "string \<Rightarrow> string \<Rightarrow> bool" where
  "contains [] sub = (sub = [])"
| "contains (c # cs) sub = (startswith (c # cs) sub \<or> contains cs sub)"

definition lower_char :: "char \<Rightarrow> char" where
  "lower_char c =
     (case map_of (zip ''ABCDEFGHIJKLMNOPQRSTUVWXYZ'' ''abcdefghijklmnopqrstuvwxyz'') c of
        Some l \<Rightarrow> l
      | None \<Rightarrow> c)"

definition ascii_lower :: "string \<Rightarrow> string" where
  "ascii_lower s = map lower_char s"

text \<open>
  \<^verbatim>\<open>s.split(c)\<close> for a one-character separator: the pieces between the separators, at
  least one piece.
\<close>

fun split :: "string \<Rightarrow> char \<Rightarrow> string list" where
  "split [] sep = [[]]"
| "split (c # cs) sep =
     (if c = sep then [] # split cs sep
      else (case split cs sep of p # ps \<Rightarrow> (c # p) # ps | [] \<Rightarrow> [[c]]))"

text \<open>
  \<^verbatim>\<open>s.replace(old, new)\<close>: every occurrence of \<^verbatim>\<open>old\<close>, found from the left without
  overlap; an empty \<^verbatim>\<open>old\<close> matches before every character and at the end.
\<close>

fun replace_nonempty :: "nat \<Rightarrow> string \<Rightarrow> string \<Rightarrow> string \<Rightarrow> string" where
  "replace_nonempty skip [] old new = []"
| "replace_nonempty skip (c # cs) old new =
     (if skip > 0 then replace_nonempty (skip - 1) cs old new
      else if startswith (c # cs) old then new @ replace_nonempty (length old - 1) cs old new
      else c # replace_nonempty 0 cs old new)"

definition replace :: "string \<Rightarrow> string \<Rightarrow> string \<Rightarrow> string" where
  "replace s old new =
     (if old = [] then new @ concat (map (\<lambda>c. c # new) s)
      else replace_nonempty 0 s old new)"

section \<open>Key paths of a payload\<close>

text \<open>\<^verbatim>\<open>f"{path}.{key}" if path else key\<close>\<close>

definition join_path :: "string \<Rightarrow> string \<Rightarrow> string" where
  "join_path path key = (if path \<noteq> [] then path @ ''.'' @ key else key)"

text \<open>\<^verbatim>\<open>type(value).__name__\<close>\<close>

fun type_name :: "json \<Rightarrow> string" where
  "type_name JNull = ''NoneType''"
| "type_name (JBool b) = ''bool''"
| "type_name (JInt i) = ''int''"
| "type_name (JFloat f) = ''float''"
| "type_name (JStr s) = ''str''"
| "type_name (JList xs) = ''list''"
| "type_name (JDict kvs) = ''dict''"

fun is_container :: "json \<Rightarrow> bool" where
  "is_container (JList xs) = True"
| "is_container (JDict kvs) = True"
| "is_container v = False"

subsection \<open>discovery.py: expected keys\<close>

text \<open>
  The nested function \<^verbatim>\<open>extract_keys\<close> of \<^verbatim>\<open>_extract_expected_keys\<close> appends to the list
  \<^verbatim>\<open>keys\<close> of the enclosing call; the model passes the list along. The second function
  is the \<^verbatim>\<open>for key, value in obj.items()\<close> loop.
\<close>

fun extract_keys :: "json \<Rightarrow> string \<Rightarrow> string list \<Rightarrow> string list"
  and extract_keys_items :: "(string \<times> json) list \<Rightarrow> string \<Rightarrow> string list \<Rightarrow> string list" where
  "extract_keys (JDict kvs) path keys = extract_keys_items kvs path keys"
| "extract_keys (JList []) path keys = keys"
| "extract_keys (JList (x # xs)) path keys =
     (if length keys < 50 then extract_keys x (path @ ''[0]'') keys else keys)"
| "extract_keys JNull path keys = keys"
| "extract_keys (JBool b) path keys = keys"
| "extract_keys (JInt i) path keys = keys"
| "extract_keys (JFloat f) path keys = keys"
| "extract_keys (JStr s) path keys = keys"
| "extract_keys_items [] path keys = keys"
| "extract_keys_items ((key, v) # rest) path keys =
     (let current_path = join_path path key;
          keys1 = keys @ [current_path];
          keys2 = (if is_container v \<and> length keys1 < 50
                   then extract_keys v current_path keys1 else keys1)
      in extract_keys_items rest path keys2)"

definition extract_expected_keys :: "json \<Rightarrow> string \<Rightarrow> string list" where
  "extract_expected_keys d dmn = take 50 (extract_keys d [] [])"

subsection \<open>parser.py: all key paths\<close>

fun extract_all_key_paths :: "json \<Rightarrow> string \<Rightarrow> string list"
  and extract_all_key_paths_items :: "(string \<times> json) list \<Rightarrow> string \<Rightarrow> string list" where
  "extract_all_key_paths (JDict kvs) path = extract_all_key_paths_items kvs path"
| "extract_all_key_paths (JList []) path = []"
| "extract_all_key_paths (JList (x # xs)) path =
     (if path \<noteq> [] then [path @ ''[0]''] else [])
     @ extract_all_key_paths x (if path \<noteq> [] then path @ ''[0]'' else ''[0]'')"
| "extract_all_key_paths JNull path = []"
| "extract_all_key_paths (JBool b) path = []"
| "extract_all_key_paths (JInt i) path = []"
| "extract_all_key_paths (JFloat f) path = []"
| "extract_all_key_paths (JStr s) path = []"
| "extract_all_key_paths_items [] path = []"
| "extract_all_key_paths_items ((key, v) # rest) path =
     (let current_path = join_path path key
      in (current_path # extract_all_key_paths v current_path)
         @ extract_all_key_paths_items rest path)"

section \<open>cache.py\<close>

subsection \<open>Schema fingerprints\<close>

text \<open>
  \<^verbatim>\<open>SchemaFingerprint\<close>. The type signatures are a dictionary in insertion order. The
  sample values are left out: nothing below reads them.
\<close>

record schema_fingerprint =
  fp_source_name :: string
  fp_domain :: string
  key_paths :: "string list"
  type_signatures :: "(string \<times> string) list"
  fp_timestamp :: real
  version_hash :: string

text \<open>
  The nested function \<^verbatim>\<open>extract_paths\<close> of \<^verbatim>\<open>create_schema_fingerprint\<close>, with the two
  containers it fills passed along. Assigning to a dictionary key replaces the value of
  a key that is there and appends a new one otherwise (\<^const>\<open>AList.update\<close>).
\<close>

fun extract_paths :: "json \<Rightarrow> string \<Rightarrow> string list \<times> (string \<times> string) list
      \<Rightarrow> string list \<times> (string \<times> string) list"
  and extract_paths_items :: "(string \<times> json) list \<Rightarrow> string \<Rightarrow> string list \<times> (string \<times> string) list
      \<Rightarrow> string list \<times> (string \<times> string) list" where
  "extract_paths (JDict kvs) path acc = extract_paths_items kvs path acc"
| "extract_paths (JList []) path acc = acc"
| "extract_paths (JList (x # xs)) path acc = extract_paths x (path @ ''[0]'') acc"
| "extract_paths JNull path acc = acc"
| "extract_paths (JBool b) path acc = acc"
| "extract_paths (JInt i) path acc = acc"
| "extract_paths (JFloat f) path acc = acc"
| "extract_paths (JStr s) path acc = acc"
| "extract_paths_items [] path acc = acc"
| "extract_paths_items ((key, v) # rest) path acc =
     (let current_path = join_path path key;
          acc1 = (fst acc @ [current_path], AList.update current_path (type_name v) (snd acc))
      in extract_paths_items rest path (extract_paths v current_path acc1))"

text \<open>
  The version hash is the SHA-256 of the dumped structure (sorted paths and types); the
  hash function is a parameter, applied to the paths and types.
\<close>

definition create_schema_fingerprint ::
  "(string list \<Rightarrow> (string \<times> string) list \<Rightarrow> string) \<Rightarrow> real \<Rightarrow> json \<Rightarrow> string \<Rightarrow> string
     \<Rightarrow> schema_fingerprint" where
  "create_schema_fingerprint structure_hash now d source dmn =
     (let r = extract_paths d [] ([], [])
      in \<lparr> fp_source_name = source, fp_domain = dmn, key_paths = fst r, type_signatures = snd r,
           fp_timestamp = now, version_hash = structure_hash (fst r) (snd r) \<rparr>)"

text \<open>
  The dictionary \<^verbatim>\<open>changes\<close> that \<^verbatim>\<open>compare_fingerprints\<close> returns. Python leaves the
  order of a list made from a set open; the model lists the keys in the order of their
  first occurrence. \<^verbatim>\<open>dict.get\<close> is \<^const>\<open>map_of\<close>. The score is a quotient of two
  integers, taken as a real number.
\<close>

record changes =
  version_changed :: bool
  new_keys :: "string list"
  removed_keys :: "string list"
  type_changes :: "(string \<times> string option \<times> string option) list"
  structural_change_score :: real

definition compare_fingerprints :: "schema_fingerprint \<Rightarrow> schema_fingerprint \<Rightarrow> changes" where
  "compare_fingerprints old new =
     (let old_keys = remdups (key_paths old);
          new_keys' = remdups (key_paths new);
          added = filter (\<lambda>k. k \<notin> set old_keys) new_keys';
          removed = filter (\<lambda>k. k \<notin> set new_keys') old_keys;
          common = filter (\<lambda>k. k \<in> set new_keys') old_keys;
          tc = map (\<lambda>k. (k, map_of (type_signatures old) k, map_of (type_signatures new) k))
                 (filter (\<lambda>k. map_of (type_signatures old) k \<noteq> map_of (type_signatures new) k) common);
          total_keys = length (remdups (old_keys @ new_keys'));
          changed_keys = length added + length removed + length tc
      in \<lparr> version_changed = (version_hash old \<noteq> version_hash new),
           new_keys = added, removed_keys = removed, type_changes = tc,
           structural_change_score =
             (if total_keys > 0 then real changed_keys / real total_keys else 0) \<rparr>)"

text \<open>The score as the specification words it, on sets of key paths.\<close>

definition changed_paths :: "schema_fingerprint \<Rightarrow> schema_fingerprint \<Rightarrow> string set" where
  "changed_paths old new =
     (set (key_paths new) - set (key_paths old))
     \<union> (set (key_paths old) - set (key_paths new))
     \<union> {k \<in> set (key_paths old) \<inter> set (key_paths new).
          map_of (type_signatures old) k \<noteq> map_of (type_signatures new) k}"

definition all_paths :: "schema_fingerprint \<Rightarrow> schema_fingerprint \<Rightarrow> string set" where
  "all_paths old new = set (key_paths old) \<union> set (key_paths new)"

text \<open>A payload nested \<open>n\<close> levels deep, one key per level.\<close>

fun nested :: "nat \<Rightarrow> json" where
  "nested 0 = JInt 1"
| "nested (Suc n) = JDict [(''a'', nested n)]"

definition no_hash :: "string list \<Rightarrow> (string \<times> string) list \<Rightarrow> string" where
  "no_hash paths types = []"

definition fp_game :: schema_fingerprint where
  "fp_game = create_schema_fingerprint no_hash 0
     (JDict [(''id'', JInt 1), (''awayTeam'', JDict [(''abbrev'', JStr ''TOR'')])])
     ''nhl_official'' ''live_game''"

definition fp_empty :: schema_fingerprint where
  "fp_empty = create_schema_fingerprint no_hash 0 (JDict []) ''nhl_official'' ''live_game''"

subsection \<open>The JSON cache\<close>

text \<open>
  \<^verbatim>\<open>JSONCache\<close> keeps an index in memory and one file per key. A file written by \<^verbatim>\<open>set\<close>
  holds the dumped dictionary \<^verbatim>\<open>cache_data\<close>; reading it back with \<^verbatim>\<open>json.load\<close> gives the
  same values, so the model keeps the values. Any other content is \<^verbatim>\<open>Corrupt\<close>: reading
  it raises. The file name is a hash of the key and the content hash a hash of the
  payload; both hash functions are parameters. The index file on disk is written after
  every change and never read again by these methods; it is left out.
\<close>

record cache_data =
  cd_data :: json
  cd_timestamp :: real
  cd_ttl_seconds :: int
  cd_etag :: "string option"
  cd_last_modified :: "string option"
  cd_source_url :: "string option"
  cd_content_hash :: string

datatype cache_file = Corrupt | Stored cache_data

record index_entry =
  expires_at :: real
  ie_content_hash :: string
  cached_at :: real

record json_cache =
  index :: "string \<rightharpoonup> index_entry"
  files :: "string \<rightharpoonup> cache_file"

text \<open>\<^verbatim>\<open>CacheEntry\<close>\<close>

record cache_entry =
  ce_key :: string
  ce_data :: json
  ce_timestamp :: real
  ce_ttl_seconds :: int
  ce_etag :: "string option"
  ce_last_modified :: "string option"
  ce_source_url :: "string option"
  ce_content_hash :: "string option"

text \<open>
  What the file system does to a call: opening for writing may fail (nothing is
  written), writing may fail half way (a broken file is left), reading and unlinking may
  fail.
\<close>

datatype write_outcome = WriteOk | OpenFails | WriteFails

record io =
  write_result :: write_outcome
  read_ok :: bool
  unlink_ok :: bool

record hashes =
  key_hash :: "string \<Rightarrow> string"
  content_hash_of :: "json \<Rightarrow> string"

text \<open>\<^verbatim>\<open>delete\<close>: an exception from \<^verbatim>\<open>unlink\<close> leaves the index as it is.\<close>

definition cache_delete :: "hashes \<Rightarrow> io \<Rightarrow> json_cache \<Rightarrow> string \<Rightarrow> bool \<times> json_cache" where
  "cache_delete h env c key =
     (let cache_path = key_hash h key in
      if files c cache_path \<noteq> None \<and> \<not> unlink_ok env then (False, c)
      else (True, c\<lparr> files := (files c)(cache_path := None),
                      index := (index c)(key := None) \<rparr>))"

text \<open>\<^verbatim>\<open>set\<close>, called at the time \<^verbatim>\<open>timestamp\<close>.\<close>

definition cache_set ::
  "hashes \<Rightarrow> io \<Rightarrow> real \<Rightarrow> json_cache \<Rightarrow> string \<Rightarrow> json \<Rightarrow> int \<Rightarrow> string option \<Rightarrow> string option
     \<Rightarrow> string option \<Rightarrow> bool \<times> json_cache" where
  "cache_set h env timestamp c key payload ttl_seconds etag last_modified source_url =
     (let cache_path = key_hash h key;
          content_hash = content_hash_of h payload;
          cd = \<lparr> cd_data = payload, cd_timestamp = timestamp, cd_ttl_seconds = ttl_seconds,
                 cd_etag = etag, cd_last_modified = last_modified, cd_source_url = source_url,
                 cd_content_hash = content_hash \<rparr>
      in case write_result env of
           OpenFails \<Rightarrow> (False, c)
         | WriteFails \<Rightarrow> (False, c\<lparr> files := (files c)(cache_path \<mapsto> Corrupt) \<rparr>)
         | WriteOk \<Rightarrow>
             (True, c\<lparr> files := (files c)(cache_path \<mapsto> Stored cd),
                        index := (index c)(key \<mapsto> \<lparr> expires_at = timestamp + real_of_int ttl_seconds,
                                                     ie_content_hash = content_hash,
                                                     cached_at = timestamp \<rparr>) \<rparr>))"

text \<open>\<^verbatim>\<open>get\<close>, called at the time \<^verbatim>\<open>now\<close>.\<close>

definition cache_get :: "hashes \<Rightarrow> io \<Rightarrow> real \<Rightarrow> json_cache \<Rightarrow> string \<Rightarrow> cache_entry option \<times> json_cache" where
  "cache_get h env now c key =
     (case index c key of
        None \<Rightarrow> (None, c)
      | Some entry_info \<Rightarrow>
          (let cache_path = key_hash h key in
           case files c cache_path of
             None \<Rightarrow> (None, c\<lparr> index := (index c)(key := None) \<rparr>)
           | Some f \<Rightarrow>
               if now > expires_at entry_info then (None, snd (cache_delete h env c key))
               else (case (if read_ok env then f else Corrupt) of
                       Corrupt \<Rightarrow> (None, snd (cache_delete h env c key))
                     | Stored cd \<Rightarrow>
                         (Some \<lparr> ce_key = key, ce_data = cd_data cd, ce_timestamp = cd_timestamp cd,
                                  ce_ttl_seconds = cd_ttl_seconds cd, ce_etag = cd_etag cd,
                                  ce_last_modified = cd_last_modified cd,
                                  ce_source_url = cd_source_url cd,
                                  ce_content_hash = Some (cd_content_hash cd) \<rparr>, c))))"

definition empty_cache :: json_cache where
  "empty_cache = \<lparr> index = Map.empty, files = Map.empty \<rparr>"

definition plain_hashes :: hashes where
  "plain_hashes = \<lparr> key_hash = (\<lambda>k. k), content_hash_of = (\<lambda>v. []) \<rparr>"

definition disk_ok :: io where
  "disk_ok = \<lparr> write_result = WriteOk, read_ok = True, unlink_ok = True \<rparr>"

section \<open>parser.py\<close>

subsection \<open>Integers from text\<close>

text \<open>
  \<^verbatim>\<open>int(s)\<close> on ASCII text: surrounding whitespace (space, tab, line feed, vertical tab,
  form feed, carriage return), an optional sign, decimal digits with single underscores
  between them; anything else is a \<^verbatim>\<open>ValueError\<close> (\<^const>\<open>None\<close>).
\<close>

definition is_space :: "char \<Rightarrow> bool" where
  "is_space c = (c \<in> set [CHR '' '', CHR 0x09, CHR 0x0A, CHR 0x0B, CHR 0x0C, CHR 0x0D])"

definition strip :: "string \<Rightarrow> string" where
  "strip s = rev (dropWhile is_space (rev (dropWhile is_space s)))"

definition digit_val :: "char \<Rightarrow> nat option" where
  "digit_val c = map_of (zip ''0123456789'' [0, 1, 2, 3, 4, 5, 6, 7, 8, 9]) c"

fun parse_digits :: "string \<Rightarrow> nat \<Rightarrow> nat option" where
  "parse_digits [] acc = Some acc"
| "parse_digits [c] acc =
     (case digit_val c of Some v \<Rightarrow> Some (acc * 10 + v) | None \<Rightarrow> None)"
| "parse_digits (c # d # ds) acc =
     (if c = CHR ''_''
      then (case digit_val d of Some v \<Rightarrow> parse_digits ds (acc * 10 + v) | None \<Rightarrow> None)
      else (case digit_val c of Some v \<Rightarrow> parse_digits (d # ds) (acc * 10 + v) | None \<Rightarrow> None))"

definition parse_unsigned :: "string \<Rightarrow> nat option" where
  "parse_unsigned s =
     (case s of
        [] \<Rightarrow> None
      | c # cs \<Rightarrow> (case digit_val c of Some v \<Rightarrow> parse_digits cs v | None \<Rightarrow> None))"

definition py_int :: "string \<Rightarrow> int option" where
  "py_int s =
     (case strip s of
        [] \<Rightarrow> None
      | c # cs \<Rightarrow>
          if c = CHR ''-'' then map_option (\<lambda>n. - int n) (parse_unsigned cs)
          else if c = CHR ''+'' then map_option int (parse_unsigned cs)
          else map_option int (parse_unsigned (c # cs)))"

subsection \<open>Resolving a path\<close>

text \<open>
  \<^verbatim>\<open>if key and key in current: current = current[key]\<close> in the bracket branch of
  \<^verbatim>\<open>_extract_value_by_path\<close>. The membership test is not guarded by a type test: on a
  number it raises; on a list or a string it is an element or substring test, and when
  it holds the subscript with a string raises.
\<close>

definition step_key :: "json \<Rightarrow> string \<Rightarrow> error + json" where
  "step_key current key =
     (if key = [] then Inr current
      else (case current of
              JDict kvs \<Rightarrow> (case map_of kvs key of Some v \<Rightarrow> Inr v | None \<Rightarrow> Inr current)
            | JList xs \<Rightarrow> if JStr key \<in> set xs then Inl TypeError else Inr current
            | JStr s \<Rightarrow> if contains s key then Inl TypeError else Inr current
            | _ \<Rightarrow> Inl TypeError))"

text \<open>The loop over the parts of the path. \<^const>\<open>JNull\<close> is \<^verbatim>\<open>None\<close>.\<close>

fun walk :: "json \<Rightarrow> string list \<Rightarrow> error + json" where
  "walk current [] = Inr current"
| "walk current (part # parts) =
     (if current = JNull then Inr JNull
      else if CHR ''['' \<in> set part \<and> CHR '']'' \<in> set part then
        (case split part CHR ''['' of
           key # after # others \<Rightarrow>
             (case split after CHR '']'' of
                index_str # others' \<Rightarrow>
                  (case step_key current key of
                     Inl e \<Rightarrow> Inl e
                   | Inr (JList xs) \<Rightarrow>
                       (case py_int index_str of
                          None \<Rightarrow> Inr JNull
                        | Some index_val \<Rightarrow>
                            if 0 \<le> index_val \<and> index_val < int (length xs)
                            then walk (xs ! nat index_val) parts
                            else Inr JNull)
                   | Inr other \<Rightarrow> Inr JNull)
              | [] \<Rightarrow> Inl IndexError)
         | _ \<Rightarrow> Inl IndexError)
      else (case current of
              JDict kvs \<Rightarrow> (case map_of kvs part of Some v \<Rightarrow> walk v parts | None \<Rightarrow> Inr JNull)
            | _ \<Rightarrow> Inr JNull))"

definition extract_value_by_path :: "json \<Rightarrow> string \<Rightarrow> error + json" where
  "extract_value_by_path d path =
     (if path = [] \<or> d = JNull then Inr d else walk d (split path CHR ''.''))"

subsection \<open>Rules\<close>

text \<open>
  \<^verbatim>\<open>ParsingRule\<close>. A transform is a callable that returns a value or raises. The default
  \<^verbatim>\<open>None\<close> is \<^const>\<open>JNull\<close>.
\<close>

record parsing_rule =
  source_path :: string
  target_path :: string
  transform :: "(json \<Rightarrow> error + json) option"
  required :: bool
  default_value :: json

definition ParsingRule :: "string \<Rightarrow> string \<Rightarrow> parsing_rule" where
  "ParsingRule sp tp = \<lparr> source_path = sp, target_path = tp, transform = None,
                          required = True, default_value = JNull \<rparr>"

text \<open>\<^verbatim>\<open>self.parsing_rules\<close>: domain \<open>\<rightarrow>\<close> source name \<open>\<rightarrow>\<close> rules, in insertion order.\<close>

type_synonym rule_table = "(string \<times> (string \<times> parsing_rule list) list) list"

text \<open>
  \<^verbatim>\<open>source_name.lower() in rule_source_name.lower() or
  rule_source_name.lower() in source_name.lower()\<close>; the first argument is \<^verbatim>\<open>str.lower\<close>.
\<close>

definition names_overlap :: "(string \<Rightarrow> string) \<Rightarrow> string \<Rightarrow> string \<Rightarrow> bool" where
  "names_overlap lw source_name rule_source_name =
     (contains (lw rule_source_name) (lw source_name)
      \<or> contains (lw source_name) (lw rule_source_name))"

definition get_parsing_rules ::
  "(string \<Rightarrow> string) \<Rightarrow> rule_table \<Rightarrow> string \<Rightarrow> string \<Rightarrow> parsing_rule list option" where
  "get_parsing_rules lw table dmn source_name =
     (case map_of table dmn of
        None \<Rightarrow> None
      | Some domain_rules \<Rightarrow>
          (case map_of domain_rules source_name of
             Some rules \<Rightarrow> Some rules
           | None \<Rightarrow>
               (case find (\<lambda>entry. names_overlap lw source_name (fst entry)) domain_rules of
                  Some entry \<Rightarrow> Some (snd entry)
                | None \<Rightarrow> None)))"

subsection \<open>Adapting rules to a changed schema\<close>

definition get_default_for_target_path :: "(string \<Rightarrow> string) \<Rightarrow> string \<Rightarrow> json" where
  "get_default_for_target_path lw tp =
     (if contains (lw tp) ''score'' then JInt 0
      else if contains (lw tp) ''sog'' then JInt 0
      else if contains (lw tp) ''intermission'' then JBool False
      else if contains (lw tp) ''plays'' then JList []
      else if contains (lw tp) ''id'' then JInt 0
      else if contains (lw tp) ''name'' then JStr ''Unknown''
      else if contains (lw tp) ''state'' then JStr ''UNKNOWN''
      else JNull)"

text \<open>\<^verbatim>\<open>removed_key.split('.')[-1].split('[')[0]\<close>\<close>

definition key_name_of :: "string \<Rightarrow> string" where
  "key_name_of removed_key = hd (split (last (split removed_key CHR ''.'')) CHR ''['')"

definition find_alternative_key_path :: "(string \<Rightarrow> string) \<Rightarrow> string \<Rightarrow> json \<Rightarrow> string option" where
  "find_alternative_key_path lw removed_key d =
     (let key_name = key_name_of removed_key;
          all_paths = extract_all_key_paths d []
      in case find (\<lambda>path. endswith path key_name \<and> path \<noteq> removed_key) all_paths of
           Some path \<Rightarrow> Some path
         | None \<Rightarrow>
             find (\<lambda>path. contains (lw path) (lw key_name) \<and> path \<noteq> removed_key) all_paths)"

text \<open>
  The body of the inner loop of \<^verbatim>\<open>_adapt_rules_for_schema_changes\<close>, for one removed key
  and one rule. \<^verbatim>\<open>if alternative_key:\<close> is false for \<^verbatim>\<open>None\<close> and for the empty string.
\<close>

definition adapt_rule :: "(string \<Rightarrow> string) \<Rightarrow> string \<Rightarrow> json \<Rightarrow> parsing_rule \<Rightarrow> parsing_rule" where
  "adapt_rule lw removed_key raw rule =
     (if contains (source_path rule) removed_key then
        (case find_alternative_key_path lw removed_key raw of
           Some alternative_key \<Rightarrow>
             if alternative_key \<noteq> []
             then rule\<lparr>source_path := replace (source_path rule) removed_key alternative_key\<rparr>
             else rule\<lparr>required := False,
                       default_value := (if default_value rule = JNull
                                         then get_default_for_target_path lw (target_path rule)
                                         else default_value rule)\<rparr>
         | None \<Rightarrow>
             rule\<lparr>required := False,
                  default_value := (if default_value rule = JNull
                                    then get_default_for_target_path lw (target_path rule)
                                    else default_value rule)\<rparr>)
      else rule)"

text \<open>The two loops: every removed key in turn, over all rules.\<close>

definition adapt_rules_for_schema_changes ::
  "(string \<Rightarrow> string) \<Rightarrow> parsing_rule list \<Rightarrow> changes \<Rightarrow> json \<Rightarrow> parsing_rule list" where
  "adapt_rules_for_schema_changes lw original_rules ch raw =
     foldl (\<lambda>adapted removed_key. map (adapt_rule lw removed_key raw) adapted)
       original_rules (removed_keys ch)"

subsection \<open>Applying rules\<close>

text \<open>
  \<^verbatim>\<open>_set_value_by_path\<close> writes into the result dictionary in place: it creates the missing
  dictionaries on the way and then assigns. When a value on the way is not a dictionary
  the membership test or the assignment raises, and what was created before stays. The
  result is the exception, if any, and the dictionary as it then is. The model works on
  values: a value read from the payload and written to the result is a copy.
\<close>

fun set_parts :: "json \<Rightarrow> string list \<Rightarrow> json \<Rightarrow> error option \<times> json" where
  "set_parts current [] v = (None, current)"
| "set_parts current [final_key] v =
     (case current of
        JDict kvs \<Rightarrow> (None, JDict (AList.update final_key v kvs))
      | _ \<Rightarrow> (Some TypeError, current))"
| "set_parts current (part # p # ps) v =
     (case current of
        JDict kvs \<Rightarrow>
          (let kvs1 = (case map_of kvs part of None \<Rightarrow> AList.update part (JDict []) kvs | Some c \<Rightarrow> kvs);
               child = (case map_of kvs1 part of None \<Rightarrow> JDict [] | Some c \<Rightarrow> c)
           in case set_parts child (p # ps) v of
                (e, child') \<Rightarrow> (e, JDict (AList.update part child' kvs1)))
      | _ \<Rightarrow> (Some TypeError, current))"

definition set_value_by_path :: "json \<Rightarrow> string \<Rightarrow> json \<Rightarrow> error option \<times> json" where
  "set_value_by_path d path v =
     (if path = [] then (None, d) else set_parts d (split path CHR ''.'') v)"

definition array_indicators :: "string list" where
  "array_indicators = [''games'', ''standings'', ''events'', ''people'', ''data'']"

definition has_indicator :: "parsing_rule \<Rightarrow> bool" where
  "has_indicator rule = (\<exists>indicator \<in> set array_indicators. contains (source_path rule) indicator)"

text \<open>\<^verbatim>\<open>_is_array_data\<close>: the path is resolved outside any \<^verbatim>\<open>try\<close>.\<close>

fun is_array_data :: "json \<Rightarrow> parsing_rule list \<Rightarrow> error + bool" where
  "is_array_data d [] = Inr False"
| "is_array_data d (rule # rules) =
     (if has_indicator rule then
        (case extract_value_by_path d (source_path rule) of
           Inl e \<Rightarrow> Inl e
         | Inr (JList xs) \<Rightarrow> Inr True
         | Inr other \<Rightarrow> is_array_data d rules)
      else is_array_data d rules)"

text \<open>
  One pass of the rule loop of \<^verbatim>\<open>_apply_rules\<close>; the \<^verbatim>\<open>try\<close> around it swallows every
  exception, and the result keeps what was written before the exception.
\<close>

definition apply_transform :: "parsing_rule \<Rightarrow> json \<Rightarrow> error + json" where
  "apply_transform rule v =
     (case transform rule of
        None \<Rightarrow> Inr v
      | Some f \<Rightarrow> if v \<noteq> JNull then f v else Inr v)"

definition apply_rule :: "json \<Rightarrow> json \<Rightarrow> parsing_rule \<Rightarrow> json" where
  "apply_rule d result rule =
     (case extract_value_by_path d (source_path rule) of
        Inl e \<Rightarrow> result
      | Inr v0 \<Rightarrow>
          (let v1 = (if v0 = JNull then default_value rule else v0) in
           case apply_transform rule v1 of
             Inl e \<Rightarrow> result
           | Inr v2 \<Rightarrow>
               if v2 \<noteq> JNull then snd (set_value_by_path result (target_path rule) v2)
               else result))"

text \<open>The top-level pass of \<^verbatim>\<open>_apply_rules_to_array\<close>: no default is applied here.\<close>

definition apply_top_rule :: "json \<Rightarrow> json \<Rightarrow> parsing_rule \<Rightarrow> json" where
  "apply_top_rule d result rule =
     (if has_indicator rule then result
      else (case extract_value_by_path d (source_path rule) of
              Inl e \<Rightarrow> result
            | Inr v0 \<Rightarrow>
                (case apply_transform rule v0 of
                   Inl e \<Rightarrow> result
                 | Inr v2 \<Rightarrow>
                     if v2 \<noteq> JNull then snd (set_value_by_path result (target_path rule) v2)
                     else result)))"

text \<open>
  The search for the main array: \<^verbatim>\<open>array_data\<close> keeps the last value resolved, a list or
  not; \<^verbatim>\<open>array_field\<close> is set, and the loop left, at the first list.
\<close>

fun find_array :: "json \<Rightarrow> parsing_rule list \<Rightarrow> json \<Rightarrow> error + (string option \<times> json)" where
  "find_array d [] array_data = Inr (None, array_data)"
| "find_array d (rule # rules) array_data =
     (if source_path rule \<in> set array_indicators then
        (case extract_value_by_path d (source_path rule) of
           Inl e \<Rightarrow> Inl e
         | Inr (JList xs) \<Rightarrow> Inr (Some (target_path rule), JList xs)
         | Inr other \<Rightarrow> find_array d rules other)
      else find_array d rules array_data)"

text \<open>
  \<^verbatim>\<open>for item in array_data\<close>: a list gives its elements, a dictionary its keys, a string
  its characters; a number is not iterable.
\<close>

fun iterate :: "json \<Rightarrow> error + json list" where
  "iterate (JList xs) = Inr xs"
| "iterate (JDict kvs) = Inr (map (\<lambda>kv. JStr (fst kv)) kvs)"
| "iterate (JStr s) = Inr (map (\<lambda>c. JStr [c]) s)"
| "iterate v = Inl TypeError"

text \<open>
  \<^verbatim>\<open>_apply_rules\<close> and \<^verbatim>\<open>_apply_rules_to_array\<close> call each other, and nothing in the source
  bounds the depth: the interpreter does, with a \<^verbatim>\<open>RecursionError\<close> when the stack is
  used up. The first argument is the number of frames left. The third function is the
  \<^verbatim>\<open>for item in array_data\<close> loop.
\<close>

fun apply_rules :: "nat \<Rightarrow> json \<Rightarrow> parsing_rule list \<Rightarrow> error + json"
  and apply_rules_to_array :: "nat \<Rightarrow> json \<Rightarrow> parsing_rule list \<Rightarrow> error + json"
  and apply_items :: "nat \<Rightarrow> json list \<Rightarrow> parsing_rule list \<Rightarrow> json list \<Rightarrow> error + json list" where
  "apply_rules 0 d rules = Inl RecursionError"
| "apply_rules (Suc n) d rules =
     (case is_array_data d rules of
        Inl e \<Rightarrow> Inl e
      | Inr True \<Rightarrow> apply_rules_to_array n d rules
      | Inr False \<Rightarrow> Inr (foldl (apply_rule d) (JDict []) rules))"
| "apply_rules_to_array 0 d rules = Inl RecursionError"
| "apply_rules_to_array (Suc n) d rules =
     (case find_array d rules JNull of
        Inl e \<Rightarrow> Inl e
      | Inr (array_field, array_data) \<Rightarrow>
          if \<not> truthy array_data then apply_rules n d rules
          else
            (let result = foldl (apply_top_rule d) (JDict []) rules;
                 item_rules = filter (\<lambda>rule. source_path rule \<notin> set array_indicators) rules
             in case iterate array_data of
                  Inl e \<Rightarrow> Inl e
                | Inr items \<Rightarrow>
                    (case apply_items n items item_rules [] of
                       Inl e \<Rightarrow> Inl e
                     | Inr processed_array \<Rightarrow>
                         (case array_field of
                            None \<Rightarrow> Inr result
                          | Some field \<Rightarrow>
                              if field = [] then Inr result
                              else (case set_value_by_path result field (JList processed_array) of
                                      (Some e, r) \<Rightarrow> Inl e
                                    | (None, r) \<Rightarrow> Inr r)))))"
| "apply_items n [] item_rules processed = Inr processed"
| "apply_items n (item # items) item_rules processed =
     (case apply_rules n item item_rules of
        Inl e \<Rightarrow> Inl e
      | Inr processed_item \<Rightarrow>
          apply_items n items item_rules
            (if truthy processed_item then processed @ [processed_item] else processed))"

subsection \<open>Parsing\<close>

text \<open>
  \<^verbatim>\<open>_apply_adaptive_parsing\<close>. The fingerprint the schema cache holds for the source and
  domain, if any, is an argument, as are the clock and the hash function of the
  fingerprint.
\<close>

definition apply_adaptive_parsing ::
  "(string \<Rightarrow> string) \<Rightarrow> nat \<Rightarrow> (string list \<Rightarrow> (string \<times> string) list \<Rightarrow> string) \<Rightarrow> real \<Rightarrow> schema_fingerprint option
     \<Rightarrow> json \<Rightarrow> parsing_rule list \<Rightarrow> string \<Rightarrow> string \<Rightarrow> error + json" where
  "apply_adaptive_parsing lw frames structure_hash now cached_fingerprint raw rules dmn source_name =
     (let rules' =
        (case cached_fingerprint of
           None \<Rightarrow> rules
         | Some old \<Rightarrow>
             (let ch = compare_fingerprints old
                         (create_schema_fingerprint structure_hash now raw source_name dmn)
              in if structural_change_score ch > 0.1
                 then adapt_rules_for_schema_changes lw rules ch raw
                 else rules))
      in apply_rules frames raw rules')"

text \<open>
  The environment of \<^verbatim>\<open>parse_data\<close>: \<^verbatim>\<open>str.lower\<close>, the frames left on the stack, the hash
  functions, the clock, the formatted time and the cached fingerprint.
\<close>

record parse_env =
  str_lower :: "string \<Rightarrow> string"
  frames :: nat
  fingerprint_hash :: "string list \<Rightarrow> (string \<times> string) list \<Rightarrow> string"
  structure_hash_of :: "json \<Rightarrow> string"
  clock :: real
  parsed_at :: string
  cached_fingerprint_of :: "string \<Rightarrow> string \<Rightarrow> schema_fingerprint option"

text \<open>The metadata \<^verbatim>\<open>parse_data\<close> stores under \<^verbatim>\<open>_source_info\<close>.\<close>

definition source_info :: "parse_env \<Rightarrow> json \<Rightarrow> string \<Rightarrow> string \<Rightarrow> json" where
  "source_info pe raw dmn source_name =
     JDict [(''source_name'', JStr source_name),
            (''domain'', JStr dmn),
            (''parsed_at'', JStr (parsed_at pe)),
            (''original_structure_hash'', JStr (structure_hash_of pe raw))]"

text \<open>The body of the \<^verbatim>\<open>try\<close> of \<^verbatim>\<open>parse_data\<close>.\<close>

definition parse_data_try :: "parse_env \<Rightarrow> rule_table \<Rightarrow> json \<Rightarrow> string \<Rightarrow> string \<Rightarrow> error + json" where
  "parse_data_try pe table raw dmn source_name =
     (case get_parsing_rules (str_lower pe) table dmn source_name of
        None \<Rightarrow> Inr raw
      | Some rules \<Rightarrow>
          if rules = [] then Inr raw
          else (case apply_adaptive_parsing (str_lower pe) (frames pe) (fingerprint_hash pe) (clock pe)
                       (cached_fingerprint_of pe source_name dmn) raw rules dmn source_name of
                  Inl e \<Rightarrow> Inl e
                | Inr (JDict kvs) \<Rightarrow>
                    Inr (JDict (AList.update ''_source_info''
                           (JDict [(''source_name'', JStr source_name),
                                   (''domain'', JStr dmn),
                                   (''parsed_at'', JStr (parsed_at pe)),
                                   (''original_structure_hash'', JStr (structure_hash_of pe raw))])
                           kvs))
                | Inr other \<Rightarrow> Inl TypeError))"

text \<open>\<^verbatim>\<open>parse_data\<close>: the \<^verbatim>\<open>except Exception\<close> clause returns the raw payload.\<close>

definition parse_data :: "parse_env \<Rightarrow> rule_table \<Rightarrow> json \<Rightarrow> string \<Rightarrow> string \<Rightarrow> json" where
  "parse_data pe table raw dmn source_name =
     (case parse_data_try pe table raw dmn source_name of
        Inl e \<Rightarrow> raw
      | Inr normalized \<Rightarrow> normalized)"

subsection \<open>The rules of the live-game domain\<close>

text \<open>\<^verbatim>\<open>_get_nhl_official_game_rules\<close>\<close>

definition nhl_official_game_rules :: "parsing_rule list" where
  "nhl_official_game_rules =
     [ParsingRule ''games'' ''games'',
      (ParsingRule ''date'' ''gameDate'')\<lparr>required := False\<rparr>,
      ParsingRule ''id'' ''id'',
      ParsingRule ''gameDate'' ''gameDate'',
      ParsingRule ''startTimeUTC'' ''startTimeUTC'',
      ParsingRule ''gameState'' ''gameState'',
      (ParsingRule ''gameType'' ''gameType'')\<lparr>required := False, default_value := JInt 2\<rparr>,
      ParsingRule ''awayTeam.id'' ''awayTeam.id'',
      ParsingRule ''awayTeam.name.default'' ''awayTeam.name.default'',
      ParsingRule ''awayTeam.abbrev'' ''awayTeam.abbrev'',
      (ParsingRule ''awayTeam.score'' ''awayTeam.score'')\<lparr>required := False, default_value := JInt 0\<rparr>,
      (ParsingRule ''awayTeam.sog'' ''awayTeam.sog'')\<lparr>required := False, default_value := JInt 0\<rparr>,
      ParsingRule ''homeTeam.id'' ''homeTeam.id'',
      ParsingRule ''homeTeam.name.default'' ''homeTeam.name.default'',
      ParsingRule ''homeTeam.abbrev'' ''homeTeam.abbrev'',
      (ParsingRule ''homeTeam.score'' ''homeTeam.score'')\<lparr>required := False, default_value := JInt 0\<rparr>,
      (ParsingRule ''homeTeam.sog'' ''homeTeam.sog'')\<lparr>required := False, default_value := JInt 0\<rparr>,
      (ParsingRule ''clock.timeRemaining'' ''clock.timeRemaining'')\<lparr>required := False\<rparr>,
      (ParsingRule ''clock.inIntermission'' ''clock.inIntermission'')
        \<lparr>required := False, default_value := JBool False\<rparr>,
      (ParsingRule ''periodDescriptor.number'' ''periodDescriptor.number'')
        \<lparr>required := False, default_value := JInt 1\<rparr>,
      (ParsingRule ''periodDescriptor.periodType'' ''periodDescriptor.periodType'')\<lparr>required := False\<rparr>,
      (ParsingRule ''plays'' ''plays'')\<lparr>required := False, default_value := JList []\<rparr>,
      (ParsingRule ''situation'' ''situation'')\<lparr>required := False\<rparr>,
      (ParsingRule ''rosterSpots'' ''rosterSpots'')\<lparr>required := False, default_value := JList []\<rparr>]"

text \<open>
  The transforms of the ESPN game rules. \<^verbatim>\<open>_iso_to_utc\<close> parses a date with the standard
  library; the parser is a parameter that gives the reformatted text, or nothing when
  the text does not parse. Both date functions return their argument on any exception.
\<close>

definition transform_espn_events :: "json \<Rightarrow> error + json" where
  "transform_espn_events events = Inr events"

definition transform_espn_date :: "json \<Rightarrow> error + json" where
  "transform_espn_date date_str = Inr date_str"

definition extract_date_from_iso :: "json \<Rightarrow> error + json" where
  "extract_date_from_iso iso_string =
     (case iso_string of
        JStr s \<Rightarrow> (case split s CHR ''T'' of p # ps \<Rightarrow> Inr (JStr p) | [] \<Rightarrow> Inr iso_string)
      | _ \<Rightarrow> Inr iso_string)"

definition iso_to_utc :: "(string \<Rightarrow> string option) \<Rightarrow> json \<Rightarrow> error + json" where
  "iso_to_utc fromisoformat iso_string =
     (case iso_string of
        JStr s \<Rightarrow> (case fromisoformat s of Some u \<Rightarrow> Inr (JStr u) | None \<Rightarrow> Inr iso_string)
      | _ \<Rightarrow> Inr iso_string)"

definition status_mapping :: "(string \<times> string) list" where
  "status_mapping =
     [(''STATUS_SCHEDULED'', ''FUT''), (''STATUS_IN_PROGRESS'', ''LIVE''), (''STATUS_FINAL'', ''FINAL''),
      (''STATUS_POSTPONED'', ''PPD''), (''STATUS_CANCELED'', ''CAN'')]"

text \<open>A list or a dictionary is not hashable and cannot be looked up.\<close>

definition map_espn_status :: "json \<Rightarrow> error + json" where
  "map_espn_status espn_status =
     (case espn_status of
        JStr s \<Rightarrow> Inr (JStr (case map_of status_mapping s of Some m \<Rightarrow> m | None \<Rightarrow> s))
      | JList xs \<Rightarrow> Inl TypeError
      | JDict kvs \<Rightarrow> Inl TypeError
      | _ \<Rightarrow> Inr espn_status)"

text \<open>The builtin \<^verbatim>\<open>int\<close> as a transform.\<close>

definition int_of :: "json \<Rightarrow> error + json" where
  "int_of v =
     (case v of
        JInt i \<Rightarrow> Inr (JInt i)
      | JBool b \<Rightarrow> Inr (JInt (if b then 1 else 0))
      | JFloat f \<Rightarrow> Inr (JInt (if f \<ge> 0 then \<lfloor>f\<rfloor> else \<lceil>f\<rceil>))
      | JStr s \<Rightarrow> (case py_int s of Some i \<Rightarrow> Inr (JInt i) | None \<Rightarrow> Inl ValueError)
      | _ \<Rightarrow> Inl TypeError)"

text \<open>\<^verbatim>\<open>_get_espn_game_rules\<close>; without \<^verbatim>\<open>required=\<close> a rule is required.\<close>

definition espn_game_rules :: "(string \<Rightarrow> string option) \<Rightarrow> parsing_rule list" where
  "espn_game_rules fromisoformat =
     [(ParsingRule ''events'' ''games'')\<lparr>transform := Some transform_espn_events\<rparr>,
      (ParsingRule ''day.date'' ''gameDate'')\<lparr>transform := Some transform_espn_date\<rparr>,
      ParsingRule ''id'' ''id'',
      (ParsingRule ''date'' ''gameDate'')\<lparr>transform := Some extract_date_from_iso\<rparr>,
      (ParsingRule ''date'' ''startTimeUTC'')\<lparr>transform := Some (iso_to_utc fromisoformat)\<rparr>,
      (ParsingRule ''status.type.name'' ''gameState'')\<lparr>transform := Some map_espn_status\<rparr>,
      ParsingRule ''competitions[0].competitors[1].team.id'' ''awayTeam.id'',
      ParsingRule ''competitions[0].competitors[1].team.displayName'' ''awayTeam.name.default'',
      ParsingRule ''competitions[0].competitors[1].team.abbreviation'' ''awayTeam.abbrev'',
      (ParsingRule ''competitions[0].competitors[1].score'' ''awayTeam.score'')
        \<lparr>transform := Some int_of, default_value := JInt 0\<rparr>,
      ParsingRule ''competitions[0].competitors[0].team.id'' ''homeTeam.id'',
      ParsingRule ''competitions[0].competitors[0].team.displayName'' ''homeTeam.name.default'',
      ParsingRule ''competitions[0].competitors[0].team.abbreviation'' ''homeTeam.abbrev'',
      (ParsingRule ''competitions[0].competitors[0].score'' ''homeTeam.score'')
        \<lparr>transform := Some int_of, default_value := JInt 0\<rparr>]"

text \<open>The \<^verbatim>\<open>'live_game'\<close> entry of \<^verbatim>\<open>_initialize_parsing_rules\<close>.\<close>

definition live_game_rules :: "(string \<Rightarrow> string option) \<Rightarrow> (string \<times> parsing_rule list) list" where
  "live_game_rules fromisoformat =
     [(''nhl_official'', nhl_official_game_rules),
      (''espn'', espn_game_rules fromisoformat),
      (''nhl_legacy'', nhl_official_game_rules)]"

subsection \<open>Example data\<close>

definition unparsed :: "string \<Rightarrow> string option" where
  "unparsed s = None"

definition live_game_table :: rule_table where
  "live_game_table = [(''live_game'', live_game_rules unparsed)]"

definition no_structure_hash :: "json \<Rightarrow> string" where
  "no_structure_hash v = []"

definition nothing_cached :: "string \<Rightarrow> string \<Rightarrow> schema_fingerprint option" where
  "nothing_cached source_name dmn = None"

definition few_frames :: parse_env where
  "few_frames = \<lparr> str_lower = ascii_lower, frames = 6, fingerprint_hash = no_hash, structure_hash_of = no_structure_hash,
                   clock = 0, parsed_at = ''2024-01-01T00:00:00+00:00'',
                   cached_fingerprint_of = nothing_cached \<rparr>"

definition no_games :: json where
  "no_games = JDict [(''games'', JList [])]"

definition espn_bad_competition :: json where
  "espn_bad_competition = JDict [(''competitions'', JList [JInt 5])]"

definition one_game :: json where
  "one_game = JDict [(''games'', JList [JDict [(''id'', JInt 4), (''gameState'', JStr ''LIVE'')]])]"

text \<open>A payload before and after the team objects moved below a new key \<^verbatim>\<open>teams\<close>.\<close>

definition payload_flat :: json where
  "payload_flat = JDict [(''awayTeam'', JDict [(''id'', JInt 3)])]"

definition payload_nested :: json where
  "payload_nested = JDict [(''teams'', JDict [(''awayTeam'', JDict [(''id'', JInt 3)])])]"

definition fp_flat :: schema_fingerprint where
  "fp_flat = create_schema_fingerprint no_hash 0 payload_flat ''nhl_official'' ''live_game''"

definition nesting_drift :: changes where
  "nesting_drift = compare_fingerprints fp_flat
     (create_schema_fingerprint no_hash 0 payload_nested ''nhl_official'' ''live_game'')"

definition away_id_rule :: parsing_rule where
  "away_id_rule = ParsingRule ''awayTeam.id'' ''awayTeam.id''"

section \<open>Properties of the poller\<close>

lemmas ex_defs = ep_nhl_def ep_espn_def ep_legacy_def sources_one_per_minute_def fresh_result_def
  env_all_raise_def env_last_ok_def env_healthy_def env_down_def two_failures_def on_fallback_def
  one_request_on_record_def DomainState_def PollResult_def

lemma poll_loop_Some:
  "poll_loop ds ev xs st rl = (Some r, st', rl') \<Longrightarrow>
     success r \<and> active_source_index st' = 0 \<and> consecutive_failures st' = 0"
  by (induction ds ev xs st rl rule: poll_loop.induct)
     (auto split: if_splits prod.splits sum.splits)

lemma poll_loop_None:
  "poll_loop ds ev xs st rl = (None, st', rl') \<Longrightarrow> st' = st"
  by (induction ds ev xs st rl rule: poll_loop.induct)
     (auto split: if_splits prod.splits sum.splits)

text \<open>
  The loop ends with a result only when the environment answered some endpoint at or
  after the active index with that result, a successful one; when no answer of the
  environment is a success, the loop runs to its end.
\<close>

lemma poll_endpoint_success:
  "poll_endpoint ds rl ep ea = (Inr r, rl') \<Longrightarrow> success r \<Longrightarrow> outcome ea = Returns r"
  by (auto simp: poll_endpoint_def PollResult_def split: prod.splits bool.splits attempt.splits)

lemma poll_loop_Some_source:
  "poll_loop ds ev xs st rl = (Some r, st', rl') \<Longrightarrow>
     \<exists>i ep. (i, ep) \<in> set xs \<and> active_source_index st \<le> int i \<and> outcome (ev i) = Returns r"
proof (induction ds ev xs st rl rule: poll_loop.induct)
  case (1 ds ev st rl)
  then show ?case by simp
next
  case (2 ds ev attempt endpoint rest st rl)
  show ?case
  proof (cases "int attempt < active_source_index st")
    case True
    with 2 show ?thesis by auto
  next
    case False
    obtain res rl1 where pe: "poll_endpoint ds rl endpoint (ev attempt) = (res, rl1)"
      by (cases "poll_endpoint ds rl endpoint (ev attempt)")
    show ?thesis
    proof (cases res)
      case (Inl e)
      with 2 False pe show ?thesis by auto
    next
      case (Inr result)
      show ?thesis
      proof (cases "success result")
        case True
        with "2.prems" False pe Inr have "r = result" by simp
        with poll_endpoint_success [OF pe [unfolded Inr] True] False show ?thesis by auto
      next
        case f: False
        with 2 False pe Inr show ?thesis by auto
      qed
    qed
  qed
qed

lemma poll_loop_all_fail:
  "\<forall>i. (case outcome (ev i) of Returns r \<Rightarrow> \<not> success r | Raises \<Rightarrow> True) \<Longrightarrow>
     fst (poll_loop ds ev xs st rl) = None"
proof (cases "fst (poll_loop ds ev xs st rl)")
  case None
  then show ?thesis .
next
  case (Some r)
  assume a: "\<forall>i. (case outcome (ev i) of Returns r \<Rightarrow> \<not> success r | Raises \<Rightarrow> True)"
  obtain st' rl' where "poll_loop ds ev xs st rl = (Some r, st', rl')"
    using Some by (cases "poll_loop ds ev xs st rl") auto
  from poll_loop_Some_source [OF this] poll_loop_Some [OF this]
  obtain i where "outcome (ev i) = Returns r" and "success r" by blast
  with a [rule_format, of i] show ?thesis by simp
qed

lemma update_game_state_index:
  "active_source_index (snd (update_game_state st d)) = active_source_index st"
  unfolding update_game_state_def Let_def
  by (simp split: json.split option.split sum.split list.split)

lemma update_domain_state_index:
  "active_source_index (snd (update_domain_state pc st r t)) = active_source_index st"
proof -
  have g: "\<And>s d e s'. update_game_state s d = (e, s') \<Longrightarrow> active_source_index s' = active_source_index s"
    using update_game_state_index by (metis snd_conv)
  show ?thesis
    unfolding update_domain_state_def Let_def
    by (auto split: prod.split option.split dest!: g)
qed

lemma poll_domain_index:
  assumes "valid_index eps st" and "poll_domain ds ev eps (st, rl) = (res, st', rl')"
  shows "valid_index eps st'"
proof (cases "eps = []")
  case True
  with assms show ?thesis by (simp add: poll_domain_def)
next
  case False
  obtain o1 st1 rl1 where pl: "poll_loop ds ev (enumerate 0 eps) st rl = (o1, st1, rl1)"
    by (metis prod_cases3)
  show ?thesis
  proof (cases o1)
    case None
    with pl have "st1 = st" by (simp add: poll_loop_None)
    with assms False pl None show ?thesis
      by (auto simp: poll_domain_def valid_index_def Let_def split: if_splits)
  next
    case (Some r)
    with pl have "active_source_index st1 = 0" using poll_loop_Some by blast
    with assms False pl Some show ?thesis
      by (auto simp: poll_domain_def valid_index_def)
  qed
qed

text \<open>
  A fetch succeeds exactly when the rate check lets the endpoint through and the
  environment answers with a successful result. The loop stops at the first endpoint,
  from the active index on, whose fetch succeeds, and runs to its end when none does.
\<close>

lemma fetch_succeeds_outcome:
  "fetch_succeeds ds ev eps st rl k \<Longrightarrow> \<exists>r. outcome (ev k) = Returns r \<and> success r"
  by (auto simp: fetch_succeeds_def fetch_def poll_endpoint_def PollResult_def
           split: sum.splits prod.splits bool.splits attempt.splits)

lemma fetch_succeeds_iff:
  "fetch_succeeds ds ev eps st rl k \<longleftrightarrow>
     fst (check_rate_limit ds (rate_limits_before ds ev eps st rl k) (ep_source_name (eps ! k)) (at_time (ev k)))
     \<and> (\<exists>r. outcome (ev k) = Returns r \<and> success r)"
  by (auto simp: fetch_succeeds_def fetch_def poll_endpoint_def PollResult_def
           split: sum.splits prod.splits bool.splits attempt.splits)

lemma poll_loop_first_success:
  assumes "k < length eps" and "active_source_index st \<le> int k"
    and "fetch ds ev eps st rl k = Inr r" and "success r"
  shows "k0 \<le> k \<Longrightarrow>
         (\<forall>j. k0 \<le> j \<and> j < k \<and> active_source_index st \<le> int j \<longrightarrow> \<not> fetch_succeeds ds ev eps st rl j) \<Longrightarrow>
         fst (poll_loop ds ev (enumerate k0 (drop k0 eps)) st (rate_limits_before ds ev eps st rl k0)) = Some r"
proof (induction "k - k0" arbitrary: k0)
  case 0
  then have k0: "k0 = k" by simp
  have d: "drop k eps = eps ! k # drop (Suc k) eps"
    using assms(1) by (simp add: Cons_nth_drop_Suc)
  obtain rl1 where pe: "poll_endpoint ds (rate_limits_before ds ev eps st rl k) (eps ! k) (ev k) = (Inr r, rl1)"
    using assms(3) by (cases "poll_endpoint ds (rate_limits_before ds ev eps st rl k) (eps ! k) (ev k)")
       (simp add: fetch_def)
  show ?case unfolding k0 d using assms(2,4) pe by simp
next
  case (Suc n)
  then have lt: "k0 < k" by simp
  with assms(1) have k0l: "k0 < length eps" by simp
  have d: "drop k0 eps = eps ! k0 # drop (Suc k0) eps"
    using k0l by (simp add: Cons_nth_drop_Suc)
  have ih: "fst (poll_loop ds ev (enumerate (Suc k0) (drop (Suc k0) eps)) st
                  (rate_limits_before ds ev eps st rl (Suc k0))) = Some r"
    using Suc.hyps(1) [of "Suc k0"] Suc.hyps(2) lt Suc.prems(2) by auto
  show ?case
  proof (cases "int k0 < active_source_index st")
    case True
    then show ?thesis unfolding d using ih by simp
  next
    case False
    then have "\<not> fetch_succeeds ds ev eps st rl k0" using Suc.prems(2) lt by auto
    moreover obtain res rl1 where pe:
      "poll_endpoint ds (rate_limits_before ds ev eps st rl k0) (eps ! k0) (ev k0) = (res, rl1)"
      by (cases "poll_endpoint ds (rate_limits_before ds ev eps st rl k0) (eps ! k0) (ev k0)")
    ultimately have nf: "case res of Inr r' \<Rightarrow> \<not> success r' | Inl e \<Rightarrow> True"
      by (auto simp: fetch_succeeds_def fetch_def split: sum.splits)
    from pe False have r1: "rate_limits_before ds ev eps st rl (Suc k0) = rl1" by simp
    show ?thesis unfolding d using ih False pe nf r1
      by (auto split: sum.splits)
  qed
qed

lemma poll_loop_no_success:
  "k0 \<le> length eps \<Longrightarrow>
   (\<forall>j. k0 \<le> j \<and> j < length eps \<and> active_source_index st \<le> int j \<longrightarrow> \<not> fetch_succeeds ds ev eps st rl j) \<Longrightarrow>
   fst (poll_loop ds ev (enumerate k0 (drop k0 eps)) st (rate_limits_before ds ev eps st rl k0)) = None"
proof (induction "length eps - k0" arbitrary: k0)
  case 0
  then show ?case by simp
next
  case (Suc n)
  then have k0l: "k0 < length eps" by simp
  have d: "drop k0 eps = eps ! k0 # drop (Suc k0) eps"
    using k0l by (simp add: Cons_nth_drop_Suc)
  have ih: "fst (poll_loop ds ev (enumerate (Suc k0) (drop (Suc k0) eps)) st
                  (rate_limits_before ds ev eps st rl (Suc k0))) = None"
    using Suc.hyps(1) [of "Suc k0"] Suc.hyps(2) k0l Suc.prems(2) by auto
  show ?case
  proof (cases "int k0 < active_source_index st")
    case True
    then show ?thesis unfolding d using ih by simp
  next
    case False
    then have "\<not> fetch_succeeds ds ev eps st rl k0" using Suc.prems(2) k0l by auto
    moreover obtain res rl1 where pe:
      "poll_endpoint ds (rate_limits_before ds ev eps st rl k0) (eps ! k0) (ev k0) = (res, rl1)"
      by (cases "poll_endpoint ds (rate_limits_before ds ev eps st rl k0) (eps ! k0) (ev k0)")
    ultimately have nf: "case res of Inr r' \<Rightarrow> \<not> success r' | Inl e \<Rightarrow> True"
      by (auto simp: fetch_succeeds_def fetch_def split: sum.splits)
    from pe False have r1: "rate_limits_before ds ev eps st rl (Suc k0) = rl1" by simp
    show ?thesis unfolding d using ih False pe nf r1
      by (auto split: sum.splits)
  qed
qed

text \<open>
  C1. In a poll cycle of a domain, a successful fetch from an endpoint (the first
  endpoint from the active index on whose fetch succeeds, those before it having failed)
  ends the cycle with that result, and the active source index and the
  consecutive-failure count are both 0 afterwards; so they are whenever the fetch from
  any endpoint from the active index on succeeds. When the domain has endpoints and the
  fetch from every endpoint from the active index on fails, the count goes up by one,
  and the index goes up by exactly one when the new count is at least 3 and an endpoint
  of lower priority exists, and stays otherwise.
\<close>

theorem poll_domain_failover:
  assumes "poll_domain ds ev eps (st, rl) = (res, st', rl')"
  shows "(\<forall>k r. active_source_index st \<le> int k \<and> k < length eps
             \<and> (\<forall>j<k. active_source_index st \<le> int j \<longrightarrow> \<not> fetch_succeeds ds ev eps st rl j)
             \<and> fetch ds ev eps st rl k = Inr r \<and> success r
           \<longrightarrow> res = r \<and> active_source_index st' = 0 \<and> consecutive_failures st' = 0)
         \<and> ((\<exists>k. active_source_index st \<le> int k \<and> k < length eps \<and> fetch_succeeds ds ev eps st rl k)
           \<longrightarrow> success res \<and> active_source_index st' = 0 \<and> consecutive_failures st' = 0)
         \<and> (eps \<noteq> []
             \<and> (\<forall>k. active_source_index st \<le> int k \<and> k < length eps \<longrightarrow> \<not> fetch_succeeds ds ev eps st rl k)
           \<longrightarrow> consecutive_failures st' = consecutive_failures st + 1
               \<and> active_source_index st' =
                   (if consecutive_failures st + 1 \<ge> 3
                       \<and> active_source_index st < int (length eps) - 1
                    then active_source_index st + 1 else active_source_index st))"
proof -
  have first: "res = r \<and> active_source_index st' = 0 \<and> consecutive_failures st' = 0"
    if k: "active_source_index st \<le> int k" "k < length eps"
      and before: "\<forall>j<k. active_source_index st \<le> int j \<longrightarrow> \<not> fetch_succeeds ds ev eps st rl j"
      and f: "fetch ds ev eps st rl k = Inr r" "success r" for k r
  proof -
    have "fst (poll_loop ds ev (enumerate 0 (drop 0 eps)) st (rate_limits_before ds ev eps st rl 0)) = Some r"
      using before by (intro poll_loop_first_success [OF k(2) k(1) f]) auto
    then obtain st1 rl1 where pl: "poll_loop ds ev (enumerate 0 eps) st rl = (Some r, st1, rl1)"
      by (cases "poll_loop ds ev (enumerate 0 eps) st rl") auto
    from poll_loop_Some [OF pl] have "active_source_index st1 = 0" "consecutive_failures st1 = 0" by simp_all
    moreover from k(2) have "eps \<noteq> []" by auto
    ultimately show ?thesis using assms pl by (simp add: poll_domain_def)
  qed
  have any: "success res \<and> active_source_index st' = 0 \<and> consecutive_failures st' = 0"
    if ex: "\<exists>k. active_source_index st \<le> int k \<and> k < length eps \<and> fetch_succeeds ds ev eps st rl k"
  proof -
    define P where "P k \<longleftrightarrow> active_source_index st \<le> int k \<and> k < length eps \<and> fetch_succeeds ds ev eps st rl k" for k
    from ex have "\<exists>k. P k" by (simp add: P_def)
    then have l: "P (LEAST k. P k)" by (rule LeastI_ex)
    have m: "\<And>j. j < (LEAST k. P k) \<Longrightarrow> \<not> P j" by (rule not_less_Least)
    let ?k = "LEAST k. P k"
    from l obtain r where r: "fetch ds ev eps st rl ?k = Inr r" "success r"
      by (auto simp: P_def fetch_succeeds_def split: sum.splits)
    have before: "\<forall>j<?k. active_source_index st \<le> int j \<longrightarrow> \<not> fetch_succeeds ds ev eps st rl j"
    proof (intro allI impI)
      fix j assume j: "j < ?k" "active_source_index st \<le> int j"
      from l have "?k < length eps" by (simp add: P_def)
      with j have "j < length eps" by simp
      with m [OF j(1)] j(2) show "\<not> fetch_succeeds ds ev eps st rl j" by (simp add: P_def)
    qed
    from l have "active_source_index st \<le> int ?k" "?k < length eps" by (simp_all add: P_def)
    from first [OF this before r] r(2) show ?thesis by simp
  qed
  have none: "consecutive_failures st' = consecutive_failures st + 1
               \<and> active_source_index st' =
                   (if consecutive_failures st + 1 \<ge> 3
                       \<and> active_source_index st < int (length eps) - 1
                    then active_source_index st + 1 else active_source_index st)"
    if ne: "eps \<noteq> []"
      and all: "\<forall>k. active_source_index st \<le> int k \<and> k < length eps \<longrightarrow> \<not> fetch_succeeds ds ev eps st rl k"
  proof -
    have "fst (poll_loop ds ev (enumerate 0 (drop 0 eps)) st (rate_limits_before ds ev eps st rl 0)) = None"
      using all by (intro poll_loop_no_success) auto
    then obtain st1 rl1 where pl: "poll_loop ds ev (enumerate 0 eps) st rl = (None, st1, rl1)"
      by (cases "poll_loop ds ev (enumerate 0 eps) st rl") auto
    from poll_loop_None [OF pl] have "st1 = st" .
    with assms ne pl show ?thesis
      by (auto simp: poll_domain_def Let_def split: if_splits)
  qed
  show ?thesis using first any none by blast
qed

theorem poll_domain_failover_witness:
  "active_source_index on_fallback \<le> int 2 \<and> 2 < length [ep_nhl, ep_espn, ep_legacy]
   \<and> \<not> fetch_succeeds [] env_last_ok [ep_nhl, ep_espn, ep_legacy] on_fallback Map.empty 1
   \<and> fetch [] env_last_ok [ep_nhl, ep_espn, ep_legacy] on_fallback Map.empty 2 = Inr fresh_result
   \<and> success fresh_result
   \<and> fst (poll_domain [] env_last_ok [ep_nhl, ep_espn, ep_legacy] (on_fallback, Map.empty)) = fresh_result
   \<and> active_source_index (fst (snd (poll_domain [] env_last_ok [ep_nhl, ep_espn, ep_legacy] (on_fallback, Map.empty)))) = 0
   \<and> consecutive_failures (fst (snd (poll_domain [] env_last_ok [ep_nhl, ep_espn, ep_legacy] (on_fallback, Map.empty)))) = 0
   \<and> [ep_nhl, ep_espn, ep_legacy] \<noteq> []
   \<and> \<not> fetch_succeeds [] env_all_raise [ep_nhl, ep_espn, ep_legacy] two_failures Map.empty 0
   \<and> \<not> fetch_succeeds [] env_all_raise [ep_nhl, ep_espn, ep_legacy] two_failures Map.empty 1
   \<and> \<not> fetch_succeeds [] env_all_raise [ep_nhl, ep_espn, ep_legacy] two_failures Map.empty 2
   \<and> consecutive_failures (fst (snd (poll_domain [] env_all_raise [ep_nhl, ep_espn, ep_legacy] (two_failures, Map.empty)))) = 3
   \<and> active_source_index (fst (snd (poll_domain [] env_all_raise [ep_nhl, ep_espn, ep_legacy] (two_failures, Map.empty)))) = 1"
proof -
  let ?eps = "[ep_nhl, ep_espn, ep_legacy]"
  let ?p = "poll_domain [] env_last_ok ?eps (on_fallback, Map.empty)"
  let ?q = "poll_domain [] env_all_raise ?eps (two_failures, Map.empty)"
  have e1: "?p = (fst ?p, fst (snd ?p), snd (snd ?p))" by simp
  have e2: "?q = (fst ?q, fst (snd ?q), snd (snd ?q))" by simp
  have i: "active_source_index on_fallback \<le> int 2" "2 < length ?eps" "?eps \<noteq> []"
    by (simp_all add: on_fallback_def)
  have s: "success fresh_result" by (simp add: fresh_result_def PollResult_def)
  have nr: "\<not> fetch_succeeds [] env_all_raise ?eps two_failures Map.empty k" for k
    using fetch_succeeds_outcome [of "[]" env_all_raise ?eps two_failures Map.empty k]
    by (auto simp: env_all_raise_def)
  have n1: "\<not> fetch_succeeds [] env_last_ok ?eps on_fallback Map.empty 1"
    using fetch_succeeds_outcome [of "[]" env_last_ok ?eps on_fallback Map.empty 1]
    by (auto simp: env_last_ok_def)
  have f2: "fetch [] env_last_ok ?eps on_fallback Map.empty 2 = Inr fresh_result"
    by (simp add: fetch_def numeral_2_eq_2 poll_endpoint_def check_rate_limit_def ex_defs)
  have b: "\<forall>j<2. active_source_index on_fallback \<le> int j \<longrightarrow>
             \<not> fetch_succeeds [] env_last_ok ?eps on_fallback Map.empty j"
  proof (intro allI impI)
    fix j :: nat assume "j < 2" "active_source_index on_fallback \<le> int j"
    then have "j = 1" by (simp add: on_fallback_def)
    with n1 show "\<not> fetch_succeeds [] env_last_ok ?eps on_fallback Map.empty j" by simp
  qed
  note t1 = poll_domain_failover [OF e1, THEN conjunct1, rule_format, of 2 fresh_result]
  have r1: "fst ?p = fresh_result \<and> active_source_index (fst (snd ?p)) = 0
             \<and> consecutive_failures (fst (snd ?p)) = 0"
    using i b f2 s by (intro t1) simp
  note t3 = poll_domain_failover [OF e2, THEN conjunct2, THEN conjunct2, rule_format]
  have r3: "consecutive_failures (fst (snd ?q)) = consecutive_failures two_failures + 1
             \<and> active_source_index (fst (snd ?q)) =
                 (if consecutive_failures two_failures + 1 \<ge> 3
                       \<and> active_source_index two_failures < int (length ?eps) - 1
                  then active_source_index two_failures + 1 else active_source_index two_failures)"
    using i(3) nr by (intro t3) simp
  have v: "consecutive_failures two_failures = 2" "active_source_index two_failures = 0"
    by (simp_all add: two_failures_def DomainState_def)
  from r3 have r3': "consecutive_failures (fst (snd ?q)) = 3" "active_source_index (fst (snd ?q)) = 1"
    by (simp_all add: v)
  from i s n1 f2 r1 nr r3' show ?thesis by simp
qed

text \<open>
  C7. In every state the polling loop of a domain can reach, the active source index is
  a valid index into the domain's endpoint list, and 0 when the list is empty.
\<close>

theorem active_source_index_valid:
  assumes "reachable ds pc d eps s"
  shows "if eps = [] then active_source_index (fst s) = 0
         else 0 \<le> active_source_index (fst s) \<and> active_source_index (fst s) < int (length eps)"
proof -
  from assms have "valid_index eps (fst s)"
  proof (induction rule: reachable.induct)
    case reachable_init
    show ?case by (simp add: valid_index_def DomainState_def)
  next
    case (reachable_pass s ev t)
    obtain st rl where s: "s = (st, rl)" by (cases s)
    obtain res st1 rl1 where pd: "poll_domain ds ev eps (st, rl) = (res, st1, rl1)"
      by (metis prod_cases3)
    from reachable_pass.IH s have v: "valid_index eps st" by simp
    from v pd have "valid_index eps st1" by (rule poll_domain_index)
    then have "valid_index eps (snd (update_domain_state pc st1 res t))"
      by (simp add: valid_index_def update_domain_state_index)
    with s pd show ?case by (simp add: loop_iteration_def)
  next
    case (reachable_others st rl rl')
    then show ?case by simp
  qed
  then show ?thesis by (simp add: valid_index_def)
qed

theorem active_source_index_valid_witness:
  "reachable [] default_polling ''live_game'' [ep_nhl, ep_espn]
     (loop_iteration [] default_polling [ep_nhl, ep_espn] env_all_raise 1000
        (DomainState ''live_game'', Map.empty))
   \<and> 0 \<le> active_source_index (fst (loop_iteration [] default_polling [ep_nhl, ep_espn] env_all_raise 1000
        (DomainState ''live_game'', Map.empty)))
   \<and> active_source_index (fst (loop_iteration [] default_polling [ep_nhl, ep_espn] env_all_raise 1000
        (DomainState ''live_game'', Map.empty))) < 2"
proof -
  have r: "reachable [] default_polling ''live_game'' [ep_nhl, ep_espn]
     (loop_iteration [] default_polling [ep_nhl, ep_espn] env_all_raise 1000
        (DomainState ''live_game'', Map.empty))"
    by (rule reachable_pass [OF reachable_init])
  show ?thesis using r active_source_index_valid [OF r] by simp
qed

lemma check_rate_limit_over:
  "check_rate_limit ds rl s t = (False, rl') \<Longrightarrow>
     rl' = rl(s \<mapsto> filter (\<lambda>x. t - x < 60) (recorded rl s))"
  by (auto simp: check_rate_limit_def recorded_def Let_def split: if_splits)

lemma recorded_over:
  "check_rate_limit ds rl s t = (False, rl') \<Longrightarrow> set (recorded rl' n) \<subseteq> set (recorded rl n)"
  by (drule check_rate_limit_over) (auto simp: recorded_def)

lemma only_rate_limited_loop:
  "only_rate_limited ds ev xs st rl \<Longrightarrow>
     fst (poll_loop ds ev xs st rl) = None
     \<and> (\<forall>n. set (recorded (snd (snd (poll_loop ds ev xs st rl))) n) \<subseteq> set (recorded rl n))"
proof (induction ds ev xs st rl rule: only_rate_limited.induct)
  case (1 ds ev st rl)
  show ?case by simp
next
  case (2 ds ev attempt endpoint rest st rl)
  show ?case
  proof (cases "int attempt < active_source_index st")
    case True
    with 2 show ?thesis by simp
  next
    case False
    obtain ok rl1 where c: "check_rate_limit ds rl (ep_source_name endpoint) (at_time (ev attempt)) = (ok, rl1)"
      by (cases "check_rate_limit ds rl (ep_source_name endpoint) (at_time (ev attempt))")
    with False "2.prems" have nok: "\<not> ok" and rest: "only_rate_limited ds ev rest st rl1" by auto
    from "2.IH"(2) [OF False c [symmetric] rest]
    have ih: "fst (poll_loop ds ev rest st rl1) = None
       \<and> (\<forall>n. set (recorded (snd (snd (poll_loop ds ev rest st rl1))) n) \<subseteq> set (recorded rl1 n))"
      by simp
    from c nok have c': "check_rate_limit ds rl (ep_source_name endpoint) (at_time (ev attempt)) = (False, rl1)"
      by simp
    have sub: "\<And>n. set (recorded rl1 n) \<subseteq> set (recorded rl n)"
      by (rule recorded_over [OF c'])
    from c nok have step: "poll_loop ds ev ((attempt, endpoint) # rest) st rl = poll_loop ds ev rest st rl1"
      using False by (simp add: poll_endpoint_def PollResult_def)
    show ?thesis unfolding step using ih sub by blast
  qed
qed


lemma only_rate_limited_skips:
  "only_rate_limited ds ev xs st rl \<Longrightarrow> (\<forall>i. at_time (ev' i) = at_time (ev i)) \<Longrightarrow>
     poll_loop ds ev' xs st rl = poll_loop ds ev xs st rl"
proof (induction ds ev xs st rl rule: only_rate_limited.induct)
  case (1 ds ev st rl)
  show ?case by simp
next
  case (2 ds ev attempt endpoint rest st rl)
  show ?case
  proof (cases "int attempt < active_source_index st")
    case True
    with 2 show ?thesis by simp
  next
    case False
    obtain ok rl1 where c: "check_rate_limit ds rl (ep_source_name endpoint) (at_time (ev attempt)) = (ok, rl1)"
      by (cases "check_rate_limit ds rl (ep_source_name endpoint) (at_time (ev attempt))")
    with False "2.prems" have nok: "\<not> ok" and rest: "only_rate_limited ds ev rest st rl1" by auto
    from "2.IH"(2) [OF False c [symmetric] rest "2.prems"(2)]
    have ih: "poll_loop ds ev' rest st rl1 = poll_loop ds ev rest st rl1" .
    from "2.prems"(2) have t: "at_time (ev' attempt) = at_time (ev attempt)" by simp
    from c nok have step: "poll_loop ds ev ((attempt, endpoint) # rest) st rl = poll_loop ds ev rest st rl1"
      using False by (simp add: poll_endpoint_def PollResult_def)
    from c nok t have step': "poll_loop ds ev' ((attempt, endpoint) # rest) st rl = poll_loop ds ev' rest st rl1"
      using False by (simp add: poll_endpoint_def PollResult_def)
    show ?thesis unfolding step step' by (rule ih)
  qed
qed

text \<open>
  C2 as the code has it. A cycle in which every endpoint tried is over its source's
  limit for the last 60 seconds makes no fetch and records no request time (the result
  does not depend on what the upstream would have answered), and it counts as a failed
  cycle: the consecutive-failure count goes up by one, as after any other failure.
\<close>

theorem rate_limited_cycle_is_failure:
  assumes "eps \<noteq> []"
    and "only_rate_limited ds ev (enumerate 0 eps) st rl"
    and "poll_domain ds ev eps (st, rl) = (res, st', rl')"
  shows "consecutive_failures st' = consecutive_failures st + 1
         \<and> (\<forall>n. set (recorded rl' n) \<subseteq> set (recorded rl n))
         \<and> (\<forall>ev'. (\<forall>i. at_time (ev' i) = at_time (ev i)) \<longrightarrow>
               poll_domain ds ev' eps (st, rl) = poll_domain ds ev eps (st, rl))"
proof -
  obtain o1 st1 rl1 where pl: "poll_loop ds ev (enumerate 0 eps) st rl = (o1, st1, rl1)"
    by (metis prod_cases3)
  from only_rate_limited_loop [OF assms(2)] pl
  have n: "o1 = None" and sub: "\<forall>n. set (recorded rl1 n) \<subseteq> set (recorded rl n)" by simp_all
  from pl n have st1: "st1 = st" by (simp add: poll_loop_None)
  from assms(1,3) pl n st1 have a: "consecutive_failures st' = consecutive_failures st + 1" and r: "rl' = rl1"
    by (auto simp: poll_domain_def Let_def split: if_splits)
  have i: "\<forall>ev'. (\<forall>i. at_time (ev' i) = at_time (ev i)) \<longrightarrow>
               poll_domain ds ev' eps (st, rl) = poll_domain ds ev eps (st, rl)"
  proof (intro allI impI)
    fix ev' :: env assume "\<forall>i. at_time (ev' i) = at_time (ev i)"
    then have "poll_loop ds ev' (enumerate 0 eps) st rl = poll_loop ds ev (enumerate 0 eps) st rl"
      by (rule only_rate_limited_skips [OF assms(2)])
    then show "poll_domain ds ev' eps (st, rl) = poll_domain ds ev eps (st, rl)"
      by (simp add: poll_domain_def)
  qed
  show ?thesis
  proof (intro conjI)
    show "consecutive_failures st' = consecutive_failures st + 1" by (rule a)
    show "\<forall>n. set (recorded rl' n) \<subseteq> set (recorded rl n)" unfolding r by (rule sub)
    show "\<forall>ev'. (\<forall>i. at_time (ev' i) = at_time (ev i)) \<longrightarrow>
               poll_domain ds ev' eps (st, rl) = poll_domain ds ev eps (st, rl)" by (rule i)
  qed
qed

theorem rate_limited_cycle_is_failure_witness:
  "[ep_nhl] \<noteq> []
   \<and> only_rate_limited sources_one_per_minute env_healthy (enumerate 0 [ep_nhl])
       (DomainState ''live_game'') one_request_on_record
   \<and> (\<forall>i. at_time (env_down i) = at_time (env_healthy i))
   \<and> consecutive_failures (fst (snd (poll_domain sources_one_per_minute env_healthy [ep_nhl]
        (DomainState ''live_game'', one_request_on_record))))
      = consecutive_failures (DomainState ''live_game'') + 1
   \<and> poll_domain sources_one_per_minute env_down [ep_nhl] (DomainState ''live_game'', one_request_on_record)
      = poll_domain sources_one_per_minute env_healthy [ep_nhl] (DomainState ''live_game'', one_request_on_record)"
proof -
  let ?p = "poll_domain sources_one_per_minute env_healthy [ep_nhl]
        (DomainState ''live_game'', one_request_on_record)"
  have ne: "[ep_nhl] \<noteq> []" by simp
  have o: "only_rate_limited sources_one_per_minute env_healthy (enumerate 0 [ep_nhl])
       (DomainState ''live_game'') one_request_on_record"
    by (simp add: ex_defs check_rate_limit_def)
  have e: "?p = (fst ?p, fst (snd ?p), snd (snd ?p))" by simp
  have c: "\<forall>i. at_time (env_down i) = at_time (env_healthy i)" by (simp add: env_down_def env_healthy_def)
  note t = rate_limited_cycle_is_failure [OF ne o e]
  from t have t1: "consecutive_failures (fst (snd ?p)) = consecutive_failures (DomainState ''live_game'') + 1"
    by (rule conjunct1)
  from t have "\<forall>ev'. (\<forall>i. at_time (ev' i) = at_time (env_healthy i)) \<longrightarrow>
      poll_domain sources_one_per_minute ev' [ep_nhl] (DomainState ''live_game'', one_request_on_record) = ?p"
    by (intro conjunct2 [OF conjunct2 [OF t]])
  with c have t3: "poll_domain sources_one_per_minute env_down [ep_nhl]
      (DomainState ''live_game'', one_request_on_record) = ?p" by blast
  show ?thesis
    by (intro conjI) (rule ne, rule o, rule c, rule t1, rule t3)
qed

text \<open>
  C2 as stated fails: with a limit of one request per minute and one request on record
  ten seconds ago, the only endpoint is turned away by the rate check and, though the
  upstream is healthy, the consecutive-failure count goes from 0 to 1.
\<close>

theorem rate_limited_cycle_counterexample:
  "only_rate_limited sources_one_per_minute env_healthy (enumerate 0 [ep_nhl])
     (DomainState ''live_game'') one_request_on_record
   \<and> consecutive_failures (DomainState ''live_game'') = 0
   \<and> consecutive_failures (fst (snd (poll_domain sources_one_per_minute env_healthy [ep_nhl]
        (DomainState ''live_game'', one_request_on_record)))) = 1"
  by (simp add: ex_defs poll_domain_def poll_endpoint_def check_rate_limit_def)

section \<open>Properties of key-path extraction\<close>

lemma extract_paths_nested:
  "length (fst (extract_paths (nested n) p acc)) = length (fst acc) + n"
  by (induction n arbitrary: p acc) (simp_all add: Let_def)

text \<open>
  C8 as the code has it. The expected-key extraction of Discovery never returns more
  than 50 key paths. The extraction that builds a schema fingerprint has no cap: it
  returns one key path for every dictionary key it reaches, so a payload nested \<open>n\<close>
  levels deep gives \<open>n\<close> key paths, for every \<open>n\<close>.
\<close>

theorem key_path_cap:
  "length (extract_expected_keys d dmn) \<le> 50
   \<and> length (key_paths (create_schema_fingerprint h t (nested n) s dm)) = n"
  by (simp add: extract_expected_keys_def create_schema_fingerprint_def Let_def extract_paths_nested)

text \<open>
  C8 as stated fails for fingerprints: a payload nested 51 levels deep has a fingerprint
  with 51 key paths.
\<close>

theorem key_path_cap_counterexample:
  "length (key_paths (create_schema_fingerprint no_hash 0 (nested 51) ''nhl_official'' ''live_game'')) = 51"
  by (simp add: create_schema_fingerprint_def Let_def extract_paths_nested)

section \<open>Properties of the fingerprint comparison\<close>

lemma new_keys_eq:
  "new_keys (compare_fingerprints old new) =
     filter (\<lambda>k. k \<notin> set (key_paths old)) (remdups (key_paths new))"
  by (simp add: compare_fingerprints_def Let_def)

lemma removed_keys_eq:
  "removed_keys (compare_fingerprints old new) =
     filter (\<lambda>k. k \<notin> set (key_paths new)) (remdups (key_paths old))"
  by (simp add: compare_fingerprints_def Let_def)

lemma type_changes_keys:
  "map fst (type_changes (compare_fingerprints old new)) =
     filter (\<lambda>k. map_of (type_signatures old) k \<noteq> map_of (type_signatures new) k)
       (filter (\<lambda>k. k \<in> set (key_paths new)) (remdups (key_paths old)))"
  by (simp add: compare_fingerprints_def Let_def comp_def)

lemma score_eq:
  "structural_change_score (compare_fingerprints old new) =
     (if card (all_paths old new) > 0
      then real (length (new_keys (compare_fingerprints old new))
                 + length (removed_keys (compare_fingerprints old new))
                 + length (type_changes (compare_fingerprints old new)))
           / real (card (all_paths old new))
      else 0)"
proof -
  have "length (remdups (remdups (key_paths old) @ remdups (key_paths new))) = card (all_paths old new)"
    by (simp add: length_remdups_card_conv all_paths_def)
  then show ?thesis
    by (simp add: compare_fingerprints_def Let_def)
qed

lemma card_new_keys:
  "length (new_keys (compare_fingerprints old new)) = card (set (key_paths new) - set (key_paths old))"
proof -
  have "set (new_keys (compare_fingerprints old new)) = set (key_paths new) - set (key_paths old)"
    by (auto simp: new_keys_eq)
  moreover have "distinct (new_keys (compare_fingerprints old new))" by (simp add: new_keys_eq)
  ultimately show ?thesis by (metis distinct_card)
qed

lemma card_removed_keys:
  "length (removed_keys (compare_fingerprints old new)) = card (set (key_paths old) - set (key_paths new))"
proof -
  have "set (removed_keys (compare_fingerprints old new)) = set (key_paths old) - set (key_paths new)"
    by (auto simp: removed_keys_eq)
  moreover have "distinct (removed_keys (compare_fingerprints old new))" by (simp add: removed_keys_eq)
  ultimately show ?thesis by (metis distinct_card)
qed

lemma card_type_changes:
  "length (type_changes (compare_fingerprints old new)) =
     card {k \<in> set (key_paths old) \<inter> set (key_paths new).
           map_of (type_signatures old) k \<noteq> map_of (type_signatures new) k}"
proof -
  let ?ks = "map fst (type_changes (compare_fingerprints old new))"
  have "set ?ks = {k \<in> set (key_paths old) \<inter> set (key_paths new).
           map_of (type_signatures old) k \<noteq> map_of (type_signatures new) k}"
    unfolding type_changes_keys by auto
  moreover have "distinct ?ks" unfolding type_changes_keys by simp
  ultimately have "length ?ks = card {k \<in> set (key_paths old) \<inter> set (key_paths new).
           map_of (type_signatures old) k \<noteq> map_of (type_signatures new) k}"
    by (metis distinct_card)
  then show ?thesis by simp
qed

lemma changed_count:
  "length (new_keys (compare_fingerprints old new))
     + length (removed_keys (compare_fingerprints old new))
     + length (type_changes (compare_fingerprints old new)) = card (changed_paths old new)"
proof -
  let ?A = "set (key_paths new) - set (key_paths old)"
  let ?R = "set (key_paths old) - set (key_paths new)"
  let ?T = "{k \<in> set (key_paths old) \<inter> set (key_paths new).
           map_of (type_signatures old) k \<noteq> map_of (type_signatures new) k}"
  have fin: "finite ?A" "finite ?R" "finite ?T" by simp_all
  have d1: "?A \<inter> ?R = {}" by auto
  have d2: "(?A \<union> ?R) \<inter> ?T = {}" by auto
  have "card (?A \<union> ?R \<union> ?T) = card (?A \<union> ?R) + card ?T"
    using fin d2 by (simp add: card_Un_disjoint)
  also have "card (?A \<union> ?R) = card ?A + card ?R"
    using fin d1 by (simp add: card_Un_disjoint)
  finally show ?thesis
    by (simp add: changed_paths_def card_new_keys card_removed_keys card_type_changes)
qed

lemma changed_subset: "changed_paths old new \<subseteq> all_paths old new"
  by (auto simp: changed_paths_def all_paths_def)

lemma changed_le: "card (changed_paths old new) \<le> card (all_paths old new)"
  by (rule card_mono) (simp_all add: all_paths_def changed_subset [unfolded all_paths_def])

text \<open>
  C3. The structural change score of \<^verbatim>\<open>compare_fingerprints\<close> is the number of added,
  removed and type-changed key paths divided by the number of key paths in the union of
  both fingerprints (and 0 when both have none); it lies between 0 and 1; fingerprints
  with the same key-path set and the same types on it score 0; a fingerprint with key
  paths against one without scores 1, in either direction.
\<close>

theorem structural_change_score_spec:
  "structural_change_score (compare_fingerprints old new) =
     (if all_paths old new = {} then 0
      else real (card (changed_paths old new)) / real (card (all_paths old new)))
   \<and> 0 \<le> structural_change_score (compare_fingerprints old new)
   \<and> structural_change_score (compare_fingerprints old new) \<le> 1
   \<and> (set (key_paths old) = set (key_paths new)
        \<and> (\<forall>k \<in> set (key_paths old). map_of (type_signatures old) k = map_of (type_signatures new) k)
       \<longrightarrow> structural_change_score (compare_fingerprints old new) = 0)
   \<and> (key_paths old \<noteq> [] \<and> key_paths new = []
       \<longrightarrow> structural_change_score (compare_fingerprints old new) = 1)
   \<and> (key_paths old = [] \<and> key_paths new \<noteq> []
       \<longrightarrow> structural_change_score (compare_fingerprints old new) = 1)"
proof -
  let ?s = "structural_change_score (compare_fingerprints old new)"
  have fin: "finite (all_paths old new)" by (simp add: all_paths_def)
  have eq: "?s = (if all_paths old new = {} then 0
      else real (card (changed_paths old new)) / real (card (all_paths old new)))"
    using fin by (simp add: score_eq changed_count card_gt_0_iff)
  have lo: "0 \<le> ?s" by (simp add: eq)
  have hi: "?s \<le> 1"
  proof (cases "all_paths old new = {}")
    case True
    then show ?thesis by (simp add: eq)
  next
    case False
    with fin have "0 < card (all_paths old new)" by (simp add: card_gt_0_iff)
    with changed_le [of old new] False show ?thesis by (simp add: eq)
  qed
  have same: "set (key_paths old) = set (key_paths new)
        \<and> (\<forall>k \<in> set (key_paths old). map_of (type_signatures old) k = map_of (type_signatures new) k)
       \<longrightarrow> ?s = 0"
  proof
    assume a: "set (key_paths old) = set (key_paths new)
        \<and> (\<forall>k \<in> set (key_paths old). map_of (type_signatures old) k = map_of (type_signatures new) k)"
    then have "changed_paths old new = {}" by (auto simp: changed_paths_def)
    then show "?s = 0" by (simp add: eq)
  qed
  have gone: "key_paths old \<noteq> [] \<and> key_paths new = [] \<longrightarrow> ?s = 1"
  proof
    assume a: "key_paths old \<noteq> [] \<and> key_paths new = []"
    then have c: "changed_paths old new = set (key_paths old)" and u: "all_paths old new = set (key_paths old)"
      by (auto simp: changed_paths_def all_paths_def)
    from a have "set (key_paths old) \<noteq> {}" by simp
    then have "card (set (key_paths old)) > 0" by (simp add: card_gt_0_iff)
    with a show "?s = 1" by (simp add: eq c u)
  qed
  have fresh: "key_paths old = [] \<and> key_paths new \<noteq> [] \<longrightarrow> ?s = 1"
  proof
    assume a: "key_paths old = [] \<and> key_paths new \<noteq> []"
    then have c: "changed_paths old new = set (key_paths new)" and u: "all_paths old new = set (key_paths new)"
      by (auto simp: changed_paths_def all_paths_def)
    from a have "set (key_paths new) \<noteq> {}" by simp
    then have "card (set (key_paths new)) > 0" by (simp add: card_gt_0_iff)
    with a show "?s = 1" by (simp add: eq c u)
  qed
  from eq lo hi same gone fresh show ?thesis by blast
qed

theorem structural_change_score_spec_witness:
  "set (key_paths fp_game) = set (key_paths fp_game)
   \<and> type_signatures fp_game = type_signatures fp_game
   \<and> structural_change_score (compare_fingerprints fp_game fp_game) = 0
   \<and> key_paths fp_game \<noteq> [] \<and> key_paths fp_empty = []
   \<and> structural_change_score (compare_fingerprints fp_game fp_empty) = 1
   \<and> structural_change_score (compare_fingerprints fp_empty fp_game) = 1"
proof -
  have k: "key_paths fp_game = [''id'', ''awayTeam'', ''awayTeam.abbrev'']" "key_paths fp_empty = []"
    by (simp_all add: fp_game_def fp_empty_def create_schema_fingerprint_def join_path_def Let_def)
  show ?thesis
    using structural_change_score_spec [of fp_game fp_game]
      structural_change_score_spec [of fp_game fp_empty]
      structural_change_score_spec [of fp_empty fp_game]
    by (simp add: k)
qed

section \<open>Properties of the JSON cache\<close>

text \<open>A successful \<^verbatim>\<open>set\<close> followed by a \<^verbatim>\<open>get\<close> before the expiry time.\<close>

lemma set_get_within_ttl:
  assumes "write_result env = WriteOk" and "read_ok env'"
    and "now \<le> timestamp + real_of_int ttl"
    and "cache_set h env timestamp c key payload ttl etag last_modified source_url = (ok, c1)"
  shows "ok \<and> (\<exists>e. cache_get h env' now c1 key = (Some e, c1)
                \<and> ce_data e = payload \<and> ce_etag e = etag \<and> ce_last_modified e = last_modified
                \<and> ce_ttl_seconds e = ttl \<and> ce_timestamp e = timestamp)"
  using assms by (auto simp: cache_set_def cache_get_def Let_def)

text \<open>
  C4. For every key, payload and TTL greater than 0: when \<^verbatim>\<open>set\<close> has written the entry and
  \<^verbatim>\<open>get\<close> follows immediately (less than a second later, the file being readable), \<^verbatim>\<open>get\<close>
  returns an entry with the payload, the ETag and the Last-Modified value given to
  \<^verbatim>\<open>set\<close>, and the entry is not treated as expired: it is returned and stays in the index.
\<close>

theorem cache_round_trip:
  assumes "0 < ttl"
    and "timestamp \<le> now" and "now - timestamp < 1"
    and "write_result env = WriteOk" and "read_ok env'"
    and "cache_set h env timestamp c key payload ttl etag last_modified source_url = (ok, c1)"
  shows "ok \<and> (\<exists>e. fst (cache_get h env' now c1 key) = Some e
                \<and> ce_data e = payload \<and> ce_etag e = etag \<and> ce_last_modified e = last_modified)
         \<and> index (snd (cache_get h env' now c1 key)) key \<noteq> None"
proof -
  from assms(1) have "1 \<le> real_of_int ttl" by simp
  with assms(3) have "now \<le> timestamp + real_of_int ttl" by linarith
  from set_get_within_ttl [OF assms(4,5) this assms(6)]
  obtain e where ok and g: "cache_get h env' now c1 key = (Some e, c1)"
    and d: "ce_data e = payload" "ce_etag e = etag" "ce_last_modified e = last_modified" by blast
  from assms(4,6) have "index c1 key \<noteq> None" by (auto simp: cache_set_def Let_def)
  with \<open>ok\<close> g d show ?thesis by simp
qed

theorem cache_round_trip_witness:
  "(0::int) < 30 \<and> (100::real) \<le> 100.5 \<and> (100.5::real) - 100 < 1
   \<and> write_result disk_ok = WriteOk \<and> read_ok disk_ok
   \<and> fst (cache_set plain_hashes disk_ok 100 empty_cache ''poll:espn:live_game:u'' no_games 30
             (Some ''W/abc'') None None)
   \<and> map_option ce_data (fst (cache_get plain_hashes disk_ok 100.5
        (snd (cache_set plain_hashes disk_ok 100 empty_cache ''poll:espn:live_game:u'' no_games 30
             (Some ''W/abc'') None None)) ''poll:espn:live_game:u'')) = Some no_games
   \<and> map_option ce_etag (fst (cache_get plain_hashes disk_ok 100.5
        (snd (cache_set plain_hashes disk_ok 100 empty_cache ''poll:espn:live_game:u'' no_games 30
             (Some ''W/abc'') None None)) ''poll:espn:live_game:u'')) = Some (Some ''W/abc'')"
proof -
  let ?s = "cache_set plain_hashes disk_ok 100 empty_cache ''poll:espn:live_game:u'' no_games 30
             (Some ''W/abc'') None None"
  have h1: "(0::int) < 30" by simp
  have h2: "(100::real) \<le> 100.5" by simp
  have h3: "(100.5::real) - 100 < 1" by simp
  have h4: "write_result disk_ok = WriteOk" by (simp add: disk_ok_def)
  have h5: "read_ok disk_ok" by (simp add: disk_ok_def)
  have h6: "?s = (fst ?s, snd ?s)" by simp
  from cache_round_trip [OF h1 h2 h3 h4 h5 h6]
  obtain e where "fst ?s" and g: "fst (cache_get plain_hashes disk_ok 100.5 (snd ?s) ''poll:espn:live_game:u'') = Some e"
    and d: "ce_data e = no_games" "ce_etag e = Some ''W/abc''" by blast
  with h1 h2 h3 h4 h5 show ?thesis by simp
qed

section \<open>Properties of the parser\<close>

subsection \<open>Path resolution\<close>

text \<open>A path without a bracket part never raises.\<close>

lemma walk_plain:
  "\<forall>part \<in> set parts. \<not> (CHR ''['' \<in> set part \<and> CHR '']'' \<in> set part) \<Longrightarrow> \<exists>v. walk d parts = Inr v"
  by (induction d parts rule: walk.induct) (auto split: json.splits option.splits)

text \<open>
  C9 fails on the code. For the payload \<^verbatim>\<open>{"competitions": [5]}\<close> and the source path of
  the ESPN away-team rule, the part \<^verbatim>\<open>competitors[1]\<close> meets the number 5, a value that is
  not a dictionary: the membership test \<^verbatim>\<open>key in current\<close> raises a \<^verbatim>\<open>TypeError\<close> where
  the claim promises \<^verbatim>\<open>None\<close>. The branch for a part without brackets tests
  \<^verbatim>\<open>isinstance(current, dict)\<close> first; the bracket branch does not.
\<close>

theorem extract_value_by_path_raises:
  "extract_value_by_path espn_bad_competition ''competitions[0].competitors[1].team.id'' = Inl TypeError"
  by (simp add: espn_bad_competition_def extract_value_by_path_def step_key_def py_int_def strip_def
      is_space_def parse_unsigned_def digit_val_def)

subsection \<open>Rule lookup\<close>

lemma find_first:
  "xs = pre @ x # post \<Longrightarrow> \<forall>e \<in> set pre. \<not> P e \<Longrightarrow> P x \<Longrightarrow> find P xs = Some x"
  by (induction pre arbitrary: xs) auto

lemma find_splits_list:
  "find P xs = Some x \<Longrightarrow> \<exists>pre post. xs = pre @ x # post \<and> (\<forall>e \<in> set pre. \<not> P e) \<and> P x"
proof (induction xs)
  case Nil
  then show ?case by simp
next
  case (Cons a xs)
  show ?case
  proof (cases "P a")
    case True
    with Cons.prems have "a = x" by simp
    with True show ?thesis by (intro exI [of _ "[]"] exI [of _ xs]) simp
  next
    case False
    with Cons obtain pre post where "xs = pre @ x # post" "\<forall>e \<in> set pre. \<not> P e" "P x" by auto
    with False show ?thesis by (intro exI [of _ "a # pre"] exI [of _ post]) simp
  qed
qed

text \<open>
  C10 as the code has it. For a domain that has rule sets and a source name that is not
  one of their names, the lookup is fuzzy: it gives the rules of the first configured
  source, in the order of the table, whose name contains the source name or is
  contained in it, ignoring case, and \<^verbatim>\<open>parse_data\<close> normalises with these rules: its result
  is the normalised dictionary with the entry \<^verbatim>\<open>_source_info\<close>, and it is the raw payload
  only when that rule list is empty or the normalisation raises. Some configured name
  overlaps exactly when the lookup gives rules; when none does, \<^verbatim>\<open>parse_data\<close> returns the
  raw payload.
\<close>

theorem fuzzy_rule_lookup:
  assumes "map_of table dmn = Some domain_rules"
    and "map_of domain_rules source_name = None"
  shows "(\<forall>pre entry post.
            domain_rules = pre @ entry # post
            \<and> (\<forall>e \<in> set pre. \<not> names_overlap (str_lower pe) source_name (fst e))
            \<and> names_overlap (str_lower pe) source_name (fst entry)
          \<longrightarrow> get_parsing_rules (str_lower pe) table dmn source_name = Some (snd entry)
              \<and> parse_data pe table raw dmn source_name =
                  (if snd entry = [] then raw
                   else (case apply_adaptive_parsing (str_lower pe) (frames pe) (fingerprint_hash pe)
                                (clock pe) (cached_fingerprint_of pe source_name dmn) raw (snd entry)
                                dmn source_name of
                           Inl e \<Rightarrow> raw
                         | Inr (JDict kvs) \<Rightarrow>
                             JDict (AList.update ''_source_info'' (source_info pe raw dmn source_name) kvs)
                         | Inr other \<Rightarrow> raw)))
         \<and> ((\<exists>entry \<in> set domain_rules. names_overlap (str_lower pe) source_name (fst entry)) \<longrightarrow>
              (\<exists>pre entry post. domain_rules = pre @ entry # post
                  \<and> (\<forall>e \<in> set pre. \<not> names_overlap (str_lower pe) source_name (fst e))
                  \<and> names_overlap (str_lower pe) source_name (fst entry)))
         \<and> ((\<forall>entry \<in> set domain_rules. \<not> names_overlap (str_lower pe) source_name (fst entry)) \<longleftrightarrow>
              get_parsing_rules (str_lower pe) table dmn source_name = None)
         \<and> (get_parsing_rules (str_lower pe) table dmn source_name = None \<longrightarrow>
              parse_data pe table raw dmn source_name = raw)"
proof -
  let ?P = "\<lambda>entry. names_overlap (str_lower pe) source_name (fst entry)"
  let ?f = "find ?P domain_rules"
  have g: "get_parsing_rules (str_lower pe) table dmn source_name = map_option snd ?f"
    using assms by (simp add: get_parsing_rules_def split: option.split)
  have a: "get_parsing_rules (str_lower pe) table dmn source_name = Some (snd entry)
              \<and> parse_data pe table raw dmn source_name =
                  (if snd entry = [] then raw
                   else (case apply_adaptive_parsing (str_lower pe) (frames pe) (fingerprint_hash pe)
                                (clock pe) (cached_fingerprint_of pe source_name dmn) raw (snd entry)
                                dmn source_name of
                           Inl e \<Rightarrow> raw
                         | Inr (JDict kvs) \<Rightarrow>
                             JDict (AList.update ''_source_info'' (source_info pe raw dmn source_name) kvs)
                         | Inr other \<Rightarrow> raw))"
    if h: "domain_rules = pre @ entry # post \<and> (\<forall>e \<in> set pre. \<not> ?P e) \<and> ?P entry" for pre entry post
  proof -
    from h have "?f = Some entry" by (intro find_first [of domain_rules pre entry post]) auto
    with g have r: "get_parsing_rules (str_lower pe) table dmn source_name = Some (snd entry)" by simp
    show ?thesis
      by (simp add: r parse_data_def parse_data_try_def source_info_def
               split: sum.split json.split)
  qed
  have b: "(\<exists>entry \<in> set domain_rules. ?P entry) \<longrightarrow>
              (\<exists>pre entry post. domain_rules = pre @ entry # post \<and> (\<forall>e \<in> set pre. \<not> ?P e) \<and> ?P entry)"
  proof
    assume "\<exists>entry \<in> set domain_rules. ?P entry"
    then have "?f \<noteq> None" by (auto simp: find_None_iff)
    then obtain entry where "?f = Some entry" by blast
    from find_splits_list [OF this]
    show "\<exists>pre entry post. domain_rules = pre @ entry # post \<and> (\<forall>e \<in> set pre. \<not> ?P e) \<and> ?P entry"
      by blast
  qed
  have c: "(\<forall>entry \<in> set domain_rules. \<not> ?P entry) \<longleftrightarrow>
              get_parsing_rules (str_lower pe) table dmn source_name = None"
    by (auto simp: g find_None_iff)
  have d: "get_parsing_rules (str_lower pe) table dmn source_name = None \<longrightarrow>
              parse_data pe table raw dmn source_name = raw"
    by (simp add: parse_data_def parse_data_try_def)
  show ?thesis
  proof (intro conjI allI impI)
    fix pre entry post
    assume h: "domain_rules = pre @ entry # post \<and> (\<forall>e \<in> set pre. \<not> ?P e) \<and> ?P entry"
    from a [OF h] show "get_parsing_rules (str_lower pe) table dmn source_name = Some (snd entry)"
      by (rule conjunct1)
    from a [OF h] show "parse_data pe table raw dmn source_name =
                  (if snd entry = [] then raw
                   else (case apply_adaptive_parsing (str_lower pe) (frames pe) (fingerprint_hash pe)
                                (clock pe) (cached_fingerprint_of pe source_name dmn) raw (snd entry)
                                dmn source_name of
                           Inl e \<Rightarrow> raw
                         | Inr (JDict kvs) \<Rightarrow>
                             JDict (AList.update ''_source_info'' (source_info pe raw dmn source_name) kvs)
                         | Inr other \<Rightarrow> raw))"
      by (rule conjunct2)
  next
    assume "\<exists>entry \<in> set domain_rules. ?P entry"
    with b show "\<exists>pre entry post. domain_rules = pre @ entry # post \<and> (\<forall>e \<in> set pre. \<not> ?P e) \<and> ?P entry"
      by blast
  next
    from c show "(\<forall>entry \<in> set domain_rules. \<not> ?P entry) =
              (get_parsing_rules (str_lower pe) table dmn source_name = None)" .
  next
    assume "get_parsing_rules (str_lower pe) table dmn source_name = None"
    with d show "parse_data pe table raw dmn source_name = raw" by blast
  qed
qed

lemmas str_defs = ascii_lower_def lower_char_def startswith_def endswith_def join_path_def key_name_of_def

lemma few_frames_fields:
  "str_lower few_frames = ascii_lower" "frames few_frames = 6" "fingerprint_hash few_frames = no_hash"
  "clock few_frames = 0" "cached_fingerprint_of few_frames s d = None"
  "parsed_at few_frames = ''2024-01-01T00:00:00+00:00''" "structure_hash_of few_frames v = []"
  by (simp_all add: few_frames_def nothing_cached_def no_structure_hash_def)

lemma overlaps:
  "names_overlap ascii_lower ''espn_v2'' ''espn''"
  "\<not> names_overlap ascii_lower ''espn_v2'' ''nhl_official''"
  "names_overlap ascii_lower ''nhl_official_v2'' ''nhl_official''"
  "\<not> names_overlap ascii_lower ''test_source'' ''espn''"
  "\<not> names_overlap ascii_lower ''test_source'' ''nhl_official''"
  "\<not> names_overlap ascii_lower ''test_source'' ''nhl_legacy''"
  by (simp_all add: names_overlap_def str_defs)

lemma one_game_rules:
  "apply_rules 6 one_game nhl_official_game_rules =
     Inr (JDict [(''games'', JList [JDict
       [(''id'', JInt 4), (''gameState'', JStr ''LIVE''), (''gameType'', JInt 2),
        (''awayTeam'', JDict [(''score'', JInt 0), (''sog'', JInt 0)]),
        (''homeTeam'', JDict [(''score'', JInt 0), (''sog'', JInt 0)]),
        (''clock'', JDict [(''inIntermission'', JBool False)]),
        (''periodDescriptor'', JDict [(''number'', JInt 1)]),
        (''plays'', JList []), (''rosterSpots'', JList [])]])])"
  by code_simp

lemma no_games_unbounded: "apply_rules 6 no_games nhl_official_game_rules = Inl RecursionError"
  by code_simp

theorem fuzzy_rule_lookup_witness:
  "map_of live_game_table ''live_game'' = Some (live_game_rules unparsed)
   \<and> map_of (live_game_rules unparsed) ''espn_v2'' = None
   \<and> live_game_rules unparsed = [(''nhl_official'', nhl_official_game_rules)]
        @ (''espn'', espn_game_rules unparsed) # [(''nhl_legacy'', nhl_official_game_rules)]
   \<and> \<not> names_overlap (str_lower few_frames) ''espn_v2'' ''nhl_official''
   \<and> names_overlap (str_lower few_frames) ''espn_v2'' ''espn''
   \<and> get_parsing_rules (str_lower few_frames) live_game_table ''live_game'' ''espn_v2''
        = Some (espn_game_rules unparsed)
   \<and> map_of (live_game_rules unparsed) ''nhl_official_v2'' = None
   \<and> names_overlap (str_lower few_frames) ''nhl_official_v2'' ''nhl_official''
   \<and> parse_data few_frames live_game_table one_game ''live_game'' ''nhl_official_v2'' =
        JDict [(''games'', JList [JDict
                 [(''id'', JInt 4), (''gameState'', JStr ''LIVE''), (''gameType'', JInt 2),
                  (''awayTeam'', JDict [(''score'', JInt 0), (''sog'', JInt 0)]),
                  (''homeTeam'', JDict [(''score'', JInt 0), (''sog'', JInt 0)]),
                  (''clock'', JDict [(''inIntermission'', JBool False)]),
                  (''periodDescriptor'', JDict [(''number'', JInt 1)]),
                  (''plays'', JList []), (''rosterSpots'', JList [])]]),
               (''_source_info'', source_info few_frames one_game ''live_game'' ''nhl_official_v2'')]
   \<and> map_of (live_game_rules unparsed) ''test_source'' = None
   \<and> get_parsing_rules (str_lower few_frames) live_game_table ''live_game'' ''test_source'' = None
   \<and> parse_data few_frames live_game_table no_games ''live_game'' ''test_source'' = no_games"
proof -
  have h1: "map_of live_game_table ''live_game'' = Some (live_game_rules unparsed)"
    by (simp add: live_game_table_def)
  have h2: "map_of (live_game_rules unparsed) ''espn_v2'' = None"
    and h3: "map_of (live_game_rules unparsed) ''nhl_official_v2'' = None"
    and h4: "map_of (live_game_rules unparsed) ''test_source'' = None"
    by (simp_all add: live_game_rules_def)
  have sp: "live_game_rules unparsed = [(''nhl_official'', nhl_official_game_rules)]
        @ (''espn'', espn_game_rules unparsed) # [(''nhl_legacy'', nhl_official_game_rules)]"
    and sp0: "live_game_rules unparsed = [] @ (''nhl_official'', nhl_official_game_rules)
        # [(''espn'', espn_game_rules unparsed), (''nhl_legacy'', nhl_official_game_rules)]"
    by (simp_all add: live_game_rules_def)
  note o = overlaps [folded few_frames_fields(1)]
  note a = fuzzy_rule_lookup [OF h1 h2, of few_frames, THEN conjunct1, rule_format,
      of "[(''nhl_official'', nhl_official_game_rules)]" "(''espn'', espn_game_rules unparsed)"
         "[(''nhl_legacy'', nhl_official_game_rules)]" one_game]
  have r1: "get_parsing_rules (str_lower few_frames) live_game_table ''live_game'' ''espn_v2''
        = Some (espn_game_rules unparsed)"
    using a sp o by simp
  note b = fuzzy_rule_lookup [OF h1 h3, of few_frames, THEN conjunct1, rule_format,
      of "[]" "(''nhl_official'', nhl_official_game_rules)"
         "[(''espn'', espn_game_rules unparsed), (''nhl_legacy'', nhl_official_game_rules)]" one_game]
  have ne: "nhl_official_game_rules \<noteq> []" by (simp add: nhl_official_game_rules_def)
  have n: "apply_adaptive_parsing (str_lower few_frames) (frames few_frames) (fingerprint_hash few_frames)
             (clock few_frames) (cached_fingerprint_of few_frames ''nhl_official_v2'' ''live_game'')
             one_game nhl_official_game_rules ''live_game'' ''nhl_official_v2''
           = apply_rules 6 one_game nhl_official_game_rules"
    by (simp add: apply_adaptive_parsing_def few_frames_fields)
  have r2: "parse_data few_frames live_game_table one_game ''live_game'' ''nhl_official_v2'' =
        JDict [(''games'', JList [JDict
                 [(''id'', JInt 4), (''gameState'', JStr ''LIVE''), (''gameType'', JInt 2),
                  (''awayTeam'', JDict [(''score'', JInt 0), (''sog'', JInt 0)]),
                  (''homeTeam'', JDict [(''score'', JInt 0), (''sog'', JInt 0)]),
                  (''clock'', JDict [(''inIntermission'', JBool False)]),
                  (''periodDescriptor'', JDict [(''number'', JInt 1)]),
                  (''plays'', JList []), (''rosterSpots'', JList [])]]),
               (''_source_info'', source_info few_frames one_game ''live_game'' ''nhl_official_v2'')]"
    using b sp0 o ne by (simp add: n one_game_rules)
  note c = fuzzy_rule_lookup [OF h1 h4, of few_frames no_games]
  have r3: "get_parsing_rules (str_lower few_frames) live_game_table ''live_game'' ''test_source'' = None"
    using c o by (simp add: live_game_rules_def)
  have r4: "parse_data few_frames live_game_table no_games ''live_game'' ''test_source'' = no_games"
    using c r3 by blast
  from h1 h2 sp o(1,2,3) r1 h3 r2 h4 r3 r4 show ?thesis by blast
qed

text \<open>
  C10 as stated fails: the raw payload is not returned only when no name overlaps. The
  source name \<^verbatim>\<open>nhl_official_v2\<close> overlaps the configured \<^verbatim>\<open>nhl_official\<close> and gets its
  rules; for a payload with an empty list of games the normalisation raises, and
  \<^verbatim>\<open>parse_data\<close> returns the raw payload.
\<close>

theorem fuzzy_rule_lookup_counterexample:
  "map_of (live_game_rules unparsed) ''nhl_official_v2'' = None
   \<and> names_overlap (str_lower few_frames) ''nhl_official_v2'' ''nhl_official''
   \<and> get_parsing_rules (str_lower few_frames) live_game_table ''live_game'' ''nhl_official_v2''
        = Some nhl_official_game_rules
   \<and> parse_data_try few_frames live_game_table no_games ''live_game'' ''nhl_official_v2''
        = Inl RecursionError
   \<and> parse_data few_frames live_game_table no_games ''live_game'' ''nhl_official_v2'' = no_games"
proof -
  have g0: "get_parsing_rules ascii_lower live_game_table ''live_game'' ''nhl_official_v2''
        = Some nhl_official_game_rules"
    by (simp add: get_parsing_rules_def live_game_table_def live_game_rules_def overlaps)
  note g = g0 [folded few_frames_fields(1)]
  have ne: "nhl_official_game_rules \<noteq> []" by (simp add: nhl_official_game_rules_def)
  have t: "parse_data_try few_frames live_game_table no_games ''live_game'' ''nhl_official_v2''
        = Inl RecursionError"
    by (simp add: parse_data_try_def g0 ne apply_adaptive_parsing_def few_frames_fields no_games_unbounded)
  have h: "map_of (live_game_rules unparsed) ''nhl_official_v2'' = None"
    by (simp add: live_game_rules_def)
  have p: "parse_data few_frames live_game_table no_games ''live_game'' ''nhl_official_v2'' = no_games"
    by (simp add: t parse_data_def)
  from h overlaps(3) [folded few_frames_fields(1)] g t p show ?thesis by blast
qed

subsection \<open>Errors during parsing\<close>

lemma map_of_update_same: "map_of (AList.update k v al) k = Some v"
  by (simp add: update_conv')

text \<open>
  C6. \<^verbatim>\<open>parse_data\<close> returns a value for every payload, domain and source name: when
  anything in the \<^verbatim>\<open>try\<close> block raises, in particular the normalisation with the rules
  found, the result is the raw payload as it was passed; otherwise it is what the block
  computed. The result is the raw payload or a dictionary with an entry
  \<^verbatim>\<open>_source_info\<close>.
\<close>

theorem parse_data_never_raises:
  "(\<forall>e. parse_data_try pe table raw dmn source_name = Inl e \<longrightarrow>
          parse_data pe table raw dmn source_name = raw)
   \<and> (\<forall>rules e. get_parsing_rules (str_lower pe) table dmn source_name = Some rules
          \<and> apply_adaptive_parsing (str_lower pe) (frames pe) (fingerprint_hash pe) (clock pe)
               (cached_fingerprint_of pe source_name dmn) raw rules dmn source_name = Inl e \<longrightarrow>
          parse_data pe table raw dmn source_name = raw)
   \<and> (parse_data pe table raw dmn source_name = raw
        \<or> (\<exists>kvs. parse_data pe table raw dmn source_name = JDict kvs
               \<and> map_of kvs ''_source_info'' \<noteq> None))"
proof (intro conjI allI impI)
  fix e assume "parse_data_try pe table raw dmn source_name = Inl e"
  then show "parse_data pe table raw dmn source_name = raw" by (simp add: parse_data_def)
next
  fix rules e
  assume "get_parsing_rules (str_lower pe) table dmn source_name = Some rules
          \<and> apply_adaptive_parsing (str_lower pe) (frames pe) (fingerprint_hash pe) (clock pe)
               (cached_fingerprint_of pe source_name dmn) raw rules dmn source_name = Inl e"
  then show "parse_data pe table raw dmn source_name = raw"
    by (simp add: parse_data_def parse_data_try_def)
next
  show "parse_data pe table raw dmn source_name = raw
        \<or> (\<exists>kvs. parse_data pe table raw dmn source_name = JDict kvs
               \<and> map_of kvs ''_source_info'' \<noteq> None)"
    by (auto simp: parse_data_def parse_data_try_def map_of_update_same
             split: option.splits sum.splits json.splits)
qed

lemma no_games_rules:
  "get_parsing_rules (str_lower few_frames) live_game_table ''live_game'' ''nhl_official'' = Some nhl_official_game_rules"
  by (simp add: get_parsing_rules_def live_game_table_def live_game_rules_def)

lemma no_games_recursion:
  "apply_rules 6 no_games nhl_official_game_rules = Inl RecursionError"
  by code_simp

theorem parse_data_never_raises_witness:
  "get_parsing_rules (str_lower few_frames) live_game_table ''live_game'' ''nhl_official'' = Some nhl_official_game_rules
   \<and> apply_adaptive_parsing (str_lower few_frames) (frames few_frames) (fingerprint_hash few_frames) (clock few_frames)
        (cached_fingerprint_of few_frames ''nhl_official'' ''live_game'') no_games
        nhl_official_game_rules ''live_game'' ''nhl_official'' = Inl RecursionError
   \<and> parse_data few_frames live_game_table no_games ''live_game'' ''nhl_official'' = no_games"
proof -
  have f: "frames few_frames = 6" "cached_fingerprint_of few_frames ''nhl_official'' ''live_game'' = None"
    "str_lower few_frames = ascii_lower"
    by (simp_all add: few_frames_def nothing_cached_def)
  have a: "apply_adaptive_parsing (str_lower few_frames) (frames few_frames) (fingerprint_hash few_frames) (clock few_frames)
        (cached_fingerprint_of few_frames ''nhl_official'' ''live_game'') no_games
        nhl_official_game_rules ''live_game'' ''nhl_official'' = Inl RecursionError"
    by (simp add: apply_adaptive_parsing_def f no_games_recursion)
  from parse_data_never_raises [of few_frames live_game_table no_games "''live_game''" "''nhl_official''"]
  have "parse_data few_frames live_game_table no_games ''live_game'' ''nhl_official'' = no_games"
    using no_games_rules a by blast
  with no_games_rules a show ?thesis by blast
qed

subsection \<open>Rule adaptation\<close>

lemma replace_nonempty_skip_all:
  "length cs \<le> n \<Longrightarrow> replace_nonempty n cs old new = []"
  by (induction n cs old new rule: replace_nonempty.induct) auto

lemma replace_self: "replace s s new = new"
proof (cases s)
  case Nil
  then show ?thesis by (simp add: replace_def)
next
  case (Cons c cs)
  then show ?thesis
    by (simp add: replace_def startswith_def replace_nonempty_skip_all)
qed

lemma find_Some_holds: "find P xs = Some x \<Longrightarrow> x \<in> set xs \<and> P x"
  by (induction xs) (auto split: if_splits)

lemma find_None_none: "find P xs = None \<Longrightarrow> x \<in> set xs \<Longrightarrow> \<not> P x"
  by (induction xs) (auto split: if_splits)

lemma find_not_None: "x \<in> set xs \<Longrightarrow> P x \<Longrightarrow> find P xs \<noteq> None"
  by (induction xs) auto

lemma find_alternative_sound:
  assumes "find_alternative_key_path lw removed_key raw = Some alt"
  shows "alt \<in> set (extract_all_key_paths raw []) \<and> alt \<noteq> removed_key
         \<and> (endswith alt (key_name_of removed_key)
              \<or> contains (lw alt) (lw (key_name_of removed_key)))"
proof (cases "find (\<lambda>path. endswith path (key_name_of removed_key) \<and> path \<noteq> removed_key)
                (extract_all_key_paths raw [])")
  case None
  with assms have "find (\<lambda>path. contains (lw path) (lw (key_name_of removed_key)) \<and> path \<noteq> removed_key)
                (extract_all_key_paths raw []) = Some alt"
    by (simp add: find_alternative_key_path_def Let_def)
  from find_Some_holds [OF this] show ?thesis by simp
next
  case (Some p)
  with assms have "p = alt" by (simp add: find_alternative_key_path_def Let_def)
  with find_Some_holds [OF Some] show ?thesis by simp
qed

lemma find_alternative_exact_first:
  assumes "find_alternative_key_path lw removed_key raw = Some alt"
    and "path \<in> set (extract_all_key_paths raw [])"
    and "endswith path (key_name_of removed_key)" and "path \<noteq> removed_key"
  shows "endswith alt (key_name_of removed_key)"
proof -
  have "find (\<lambda>path. endswith path (key_name_of removed_key) \<and> path \<noteq> removed_key)
       (extract_all_key_paths raw []) \<noteq> None"
    using assms(2,3,4) by (intro find_not_None [of path]) simp_all
  then obtain p where p: "find (\<lambda>path. endswith path (key_name_of removed_key) \<and> path \<noteq> removed_key)
       (extract_all_key_paths raw []) = Some p" by blast
  with assms(1) have "p = alt" by (simp add: find_alternative_key_path_def Let_def)
  with find_Some_holds [OF p] show ?thesis by simp
qed

lemma find_alternative_complete:
  assumes "find_alternative_key_path lw removed_key raw = None"
    and "path \<in> set (extract_all_key_paths raw [])" and "path \<noteq> removed_key"
  shows "\<not> endswith path (key_name_of removed_key)
         \<and> \<not> contains (lw path) (lw (key_name_of removed_key))"
proof -
  from assms(1) have a: "find (\<lambda>path. endswith path (key_name_of removed_key) \<and> path \<noteq> removed_key)
       (extract_all_key_paths raw []) = None"
    by (simp add: find_alternative_key_path_def Let_def split: option.splits)
  with assms(1) have b: "find (\<lambda>path. contains (lw path) (lw (key_name_of removed_key)) \<and> path \<noteq> removed_key)
       (extract_all_key_paths raw []) = None"
    by (simp add: find_alternative_key_path_def Let_def)
  from find_None_none [OF a assms(2)] find_None_none [OF b assms(2)] assms(3) show ?thesis by simp
qed

text \<open>
  One step of the adaptation, for a rule whose source path contains the removed key:
  what the rule becomes with and without an alternative, what the alternative is, and
  the default of a target path.
\<close>

lemma adapt_rule_step:
  assumes "contains (source_path rule) removed_key"
  shows "(\<forall>alt. find_alternative_key_path lw removed_key raw = Some alt \<and> alt \<noteq> [] \<longrightarrow>
            adapt_rule lw removed_key raw rule
              = rule\<lparr>source_path := replace (source_path rule) removed_key alt\<rparr>
            \<and> (source_path rule = removed_key \<longrightarrow> source_path (adapt_rule lw removed_key raw rule) = alt)
            \<and> alt \<in> set (extract_all_key_paths raw []) \<and> alt \<noteq> removed_key
            \<and> (endswith alt (key_name_of removed_key)
                 \<or> contains (lw alt) (lw (key_name_of removed_key)))
            \<and> ((\<exists>path \<in> set (extract_all_key_paths raw []).
                    endswith path (key_name_of removed_key) \<and> path \<noteq> removed_key)
                 \<longrightarrow> endswith alt (key_name_of removed_key)))
         \<and> (find_alternative_key_path lw removed_key raw = None
              \<or> find_alternative_key_path lw removed_key raw = Some [] \<longrightarrow>
              adapt_rule lw removed_key raw rule
                = rule\<lparr>required := False,
                       default_value := (if default_value rule = JNull
                                         then get_default_for_target_path lw (target_path rule)
                                         else default_value rule)\<rparr>)
         \<and> (removed_keys ch = [removed_key] \<longrightarrow>
              adapt_rules_for_schema_changes lw rules ch raw = map (adapt_rule lw removed_key raw) rules)
         \<and> get_default_for_target_path lw tp =
             (if contains (lw tp) ''score'' \<or> contains (lw tp) ''sog'' then JInt 0
              else if contains (lw tp) ''intermission'' then JBool False
              else if contains (lw tp) ''plays'' then JList []
              else if contains (lw tp) ''id'' then JInt 0
              else if contains (lw tp) ''name'' then JStr ''Unknown''
              else if contains (lw tp) ''state'' then JStr ''UNKNOWN''
              else JNull)"
proof (intro conjI allI impI)
  fix alt
  assume a: "find_alternative_key_path lw removed_key raw = Some alt \<and> alt \<noteq> []"
  then have f: "find_alternative_key_path lw removed_key raw = Some alt" and ne: "alt \<noteq> []" by simp_all
  show r: "adapt_rule lw removed_key raw rule = rule\<lparr>source_path := replace (source_path rule) removed_key alt\<rparr>"
    using assms f ne by (simp add: adapt_rule_def)
  show "alt \<in> set (extract_all_key_paths raw [])" "alt \<noteq> removed_key"
    "endswith alt (key_name_of removed_key) \<or> contains (lw alt) (lw (key_name_of removed_key))"
    using find_alternative_sound [OF f] by simp_all
  { assume "source_path rule = removed_key"
    then show "source_path (adapt_rule lw removed_key raw rule) = alt"
      by (simp add: r replace_self) }
  { assume "\<exists>path \<in> set (extract_all_key_paths raw []).
                    endswith path (key_name_of removed_key) \<and> path \<noteq> removed_key"
    then show "endswith alt (key_name_of removed_key)"
      using find_alternative_exact_first [OF f] by blast }
next
  assume "find_alternative_key_path lw removed_key raw = None
              \<or> find_alternative_key_path lw removed_key raw = Some []"
  then show "adapt_rule lw removed_key raw rule
                = rule\<lparr>required := False,
                       default_value := (if default_value rule = JNull
                                         then get_default_for_target_path lw (target_path rule)
                                         else default_value rule)\<rparr>"
    using assms by (auto simp: adapt_rule_def)
next
  assume "removed_keys ch = [removed_key]"
  then show "adapt_rules_for_schema_changes lw rules ch raw = map (adapt_rule lw removed_key raw) rules"
    by (simp add: adapt_rules_for_schema_changes_def)
next
  show "get_default_for_target_path lw tp =
             (if contains (lw tp) ''score'' \<or> contains (lw tp) ''sog'' then JInt 0
              else if contains (lw tp) ''intermission'' then JBool False
              else if contains (lw tp) ''plays'' then JList []
              else if contains (lw tp) ''id'' then JInt 0
              else if contains (lw tp) ''name'' then JStr ''Unknown''
              else if contains (lw tp) ''state'' then JStr ''UNKNOWN''
              else JNull)"
    by (simp add: get_default_for_target_path_def)
qed

text \<open>The adaptation after the team objects moved below a new key.\<close>

lemma drift_facts:
  "structural_change_score nesting_drift = 1"
  "removed_keys nesting_drift = [''awayTeam'', ''awayTeam.id'']"
  by (simp_all add: nesting_drift_def fp_flat_def compare_fingerprints_def create_schema_fingerprint_def
        payload_flat_def payload_nested_def Let_def join_path_def)

lemma nested_paths:
  "extract_all_key_paths payload_nested [] = [''teams'', ''teams.awayTeam'', ''teams.awayTeam.id'']"
  by (simp add: payload_nested_def join_path_def)

lemma alt_team: "find_alternative_key_path ascii_lower ''awayTeam'' payload_nested = Some ''teams.awayTeam''"
  by (simp add: find_alternative_key_path_def nested_paths str_defs Let_def)

lemma alt_team_id: "find_alternative_key_path ascii_lower ''awayTeam.id'' payload_nested = Some ''teams.awayTeam.id''"
  by (simp add: find_alternative_key_path_def nested_paths str_defs Let_def)

lemma step1: "adapt_rule ascii_lower ''awayTeam'' payload_nested away_id_rule
               = away_id_rule\<lparr>source_path := ''teams.awayTeam.id''\<rparr>"
  by (simp add: adapt_rule_def alt_team away_id_rule_def ParsingRule_def replace_def startswith_def)

lemma step2: "adapt_rule ascii_lower ''awayTeam.id'' payload_nested (away_id_rule\<lparr>source_path := ''teams.awayTeam.id''\<rparr>)
               = away_id_rule\<lparr>source_path := ''teams.teams.awayTeam.id''\<rparr>"
  by (simp add: adapt_rule_def alt_team_id away_id_rule_def ParsingRule_def replace_def startswith_def)

lemma step1': "adapt_rule ascii_lower ''awayTeam.id'' payload_nested away_id_rule
               = away_id_rule\<lparr>source_path := ''teams.awayTeam.id''\<rparr>"
  by (simp add: adapt_rule_def alt_team_id away_id_rule_def ParsingRule_def replace_def startswith_def)

lemma step2': "adapt_rule ascii_lower ''awayTeam'' payload_nested (away_id_rule\<lparr>source_path := ''teams.awayTeam.id''\<rparr>)
               = away_id_rule\<lparr>source_path := ''teams.teams.awayTeam.id''\<rparr>"
  by (simp add: adapt_rule_def alt_team away_id_rule_def ParsingRule_def replace_def startswith_def)

text \<open>
  C5 fails on the code. The cached fingerprint is that of \<^verbatim>\<open>{"awayTeam": {"id": 3}}\<close>, the
  new payload is \<^verbatim>\<open>{"teams": {"awayTeam": {"id": 3}}}\<close> (score 1, above 0.1), and the rule is
  the one for \<^verbatim>\<open>awayTeam.id\<close> of the official game rules, whose source path is a removed
  key. The current key path \<^verbatim>\<open>teams.awayTeam.id\<close> matches, and the claim says the rule is
  rewritten to it. The code rewrites the rule once for each of the removed keys
  \<^verbatim>\<open>awayTeam\<close> and \<^verbatim>\<open>awayTeam.id\<close>, the second time inside the path it has just written,
  and in either order the source path ends as \<^verbatim>\<open>teams.teams.awayTeam.id\<close>: no key path of
  the payload, with the rule still required and without a default. Parsing then gives an
  empty dictionary, where the rule with the matching path gives the team's id.
\<close>

theorem adapt_rules_mangles_path:
  "structural_change_score nesting_drift > 0.1
   \<and> removed_keys nesting_drift = [''awayTeam'', ''awayTeam.id'']
   \<and> source_path away_id_rule = ''awayTeam.id''
   \<and> ''teams.awayTeam.id'' \<in> set (extract_all_key_paths payload_nested [])
   \<and> adapt_rules_for_schema_changes ascii_lower [away_id_rule] nesting_drift payload_nested
        = [away_id_rule\<lparr>source_path := ''teams.teams.awayTeam.id''\<rparr>]
   \<and> adapt_rules_for_schema_changes ascii_lower [away_id_rule]
          (nesting_drift\<lparr>removed_keys := [''awayTeam.id'', ''awayTeam'']\<rparr>) payload_nested
        = [away_id_rule\<lparr>source_path := ''teams.teams.awayTeam.id''\<rparr>]
   \<and> ''teams.teams.awayTeam.id'' \<notin> set (extract_all_key_paths payload_nested [])
   \<and> required (away_id_rule\<lparr>source_path := ''teams.teams.awayTeam.id''\<rparr>)
   \<and> default_value (away_id_rule\<lparr>source_path := ''teams.teams.awayTeam.id''\<rparr>) = JNull
   \<and> apply_adaptive_parsing ascii_lower 6 no_hash 0 (Some fp_flat) payload_nested [away_id_rule]
        ''live_game'' ''nhl_official'' = Inr (JDict [])
   \<and> apply_rules 6 payload_nested [away_id_rule\<lparr>source_path := ''teams.awayTeam.id''\<rparr>]
        = Inr (JDict [(''awayTeam'', JDict [(''id'', JInt 3)])])"
proof -
  have a: "adapt_rules_for_schema_changes ascii_lower [away_id_rule] nesting_drift payload_nested
        = [away_id_rule\<lparr>source_path := ''teams.teams.awayTeam.id''\<rparr>]"
    by (simp add: adapt_rules_for_schema_changes_def drift_facts step1 step2)
  have b: "adapt_rules_for_schema_changes ascii_lower [away_id_rule]
          (nesting_drift\<lparr>removed_keys := [''awayTeam.id'', ''awayTeam'']\<rparr>) payload_nested
        = [away_id_rule\<lparr>source_path := ''teams.teams.awayTeam.id''\<rparr>]"
    by (simp add: adapt_rules_for_schema_changes_def step1' step2')
  have c: "apply_rules 6 payload_nested [away_id_rule\<lparr>source_path := ''teams.teams.awayTeam.id''\<rparr>]
        = Inr (JDict [])"
    by code_simp
  have d: "apply_rules 6 payload_nested [away_id_rule\<lparr>source_path := ''teams.awayTeam.id''\<rparr>]
        = Inr (JDict [(''awayTeam'', JDict [(''id'', JInt 3)])])"
    by code_simp
  have e: "apply_adaptive_parsing ascii_lower 6 no_hash 0 (Some fp_flat) payload_nested [away_id_rule]
        ''live_game'' ''nhl_official'' = Inr (JDict [])"
    using a c drift_facts(1)
    by (simp add: apply_adaptive_parsing_def nesting_drift_def Let_def)
  show ?thesis
    using a b d e
    by (simp add: drift_facts nested_paths away_id_rule_def ParsingRule_def)
qed

end
